theory Spec2Isabelle
  imports Complex_Main "HOL-Library.Word" "HOL-Library.Multiset" "HOL-Library.Sublist"
begin

unbundle bit_operations_syntax

section \<open>Tokens (read.hpp, namespace zachlisp::token)\<close>

text \<open>
  The development embeds \<^verbatim>\<open>src/read.hpp\<close>: the tokenizer, the form data model, the
  structural hash, \<^verbatim>\<open>equals\<close> and the recursive-descent reader. The reader of
  \<^verbatim>\<open>src/zachlisp.hpp\<close> (\<^verbatim>\<open>readForm\<close>, \<^verbatim>\<open>readColl\<close>, \<^verbatim>\<open>listToMap\<close>, ...) is the same code under
  camel-case names; where the two files differ (\<^verbatim>\<open>hash\<close>, \<^verbatim>\<open>equals\<close>, the regular
  expression) the definitions below follow \<^verbatim>\<open>read.hpp\<close>.
\<close>

datatype token_type = WHITESPACE | SPECIAL_CHARS | SPECIAL_CHAR | STRING | COMMENT | NUMBER | SYMBOL

text \<open>\<^verbatim>\<open>value::Value = std::variant<bool, char, long, double, std::string>\<close>.\<close>

datatype tvalue = V_BOOL bool | V_CHAR char | V_LONG int | V_DOUBLE real | V_STRING string

text \<open>
  \<^verbatim>\<open>struct Token\<close>; its fields \<^verbatim>\<open>value\<close> and \<^verbatim>\<open>type\<close> are \<open>tok_value\<close> and \<open>tok_type\<close>
  here, since \<^verbatim>\<open>value\<close> is a keyword of the theory language.
\<close>

record token =
  tok_value :: tvalue
  tok_type :: token_type
  line :: int
  column :: int

text \<open>
  The ways a call can end without a result: the exceptions of the C++ standard library that
  the code can raise, and undefined behaviour (dereferencing the end iterator).
\<close>

datatype exn = out_of_range | invalid_argument | bad_variant_access | undefined_behaviour

type_synonym size_t = "64 word"

text \<open>
  The parts of the C++ standard library whose results the language standard leaves to the
  implementation: \<^verbatim>\<open>std::stod\<close> (floating point) and the three \<^verbatim>\<open>std::hash\<close>
  specialisations the code instantiates. They are parameters of the model.
\<close>

record stdlib =
  stod :: "string \<Rightarrow> exn + real"
  hash_value :: "tvalue \<Rightarrow> size_t"
  hash_string :: "string \<Rightarrow> size_t"
  hash_size_t :: "size_t \<Rightarrow> size_t"

subsection \<open>Character classes of \<^verbatim>\<open>REGEX\<close>\<close>

definition is_space :: "char \<Rightarrow> bool" where
  "is_space c \<longleftrightarrow> c \<in> set [CHR 0x20, CHR 0x09, CHR 0x0A, CHR 0x0B, CHR 0x0C, CHR 0x0D]"

definition is_digit :: "char \<Rightarrow> bool" where
  "is_digit c \<longleftrightarrow> c \<in> set ''0123456789''"

text \<open>The ECMAScript \<^verbatim>\<open>.\<close> matches every character but a line terminator.\<close>

definition is_any :: "char \<Rightarrow> bool" where
  "is_any c \<longleftrightarrow> c \<noteq> CHR 0x0A \<and> c \<noteq> CHR 0x0D"

text \<open>\<^verbatim>\<open>[\[\]{}()'`~^@]\<close>; 0x27 is the single quote, 0x60 the backquote.\<close>

definition is_special :: "char \<Rightarrow> bool" where
  "is_special c \<longleftrightarrow> c \<in> set [CHR ''['', CHR '']'', CHR ''{'', CHR ''}'', CHR ''('', CHR '')'',
     CHR 0x27, CHR 0x60, CHR ''~'', CHR ''^'', CHR ''@'']"

text \<open>\<^verbatim>\<open>[^\s\[\]{}('"`,;)]\<close>; 0x22 is the double quote.\<close>

definition is_symbol_char :: "char \<Rightarrow> bool" where
  "is_symbol_char c \<longleftrightarrow> \<not> is_space c \<and> c \<notin> set [CHR ''['', CHR '']'', CHR ''{'', CHR ''}'',
     CHR ''('', CHR 0x27, CHR 0x22, CHR 0x60, CHR '','', CHR '';'', CHR '')'']"

subsection \<open>The seven alternatives of \<^verbatim>\<open>REGEX\<close>\<close>

text \<open>
  Each function gives the length of the text its capture group matches at the start of the
  input, 0 when the group does not take part in a match there. In \<^verbatim>\<open>read.hpp\<close> no
  group matches the empty text.
\<close>

definition match_WHITESPACE :: "string \<Rightarrow> nat" where
  "match_WHITESPACE s = length (takeWhile (\<lambda>c. is_space c \<or> c = CHR '','') s)"

definition match_SPECIAL_CHARS :: "string \<Rightarrow> nat" where
  "match_SPECIAL_CHARS s = (if take 2 s = ''~@'' \<or> take 2 s = ''#{'' then 2 else 0)"

definition match_SPECIAL_CHAR :: "string \<Rightarrow> nat" where
  "match_SPECIAL_CHAR s = (case s of [] \<Rightarrow> 0 | c # _ \<Rightarrow> if is_special c then 1 else 0)"

text \<open>
  \<^verbatim>\<open>(?:\\.|[^\\"])*\<close>: the two branches start with different characters, so the greedy
  star never has to backtrack. A backslash that no character other than a line terminator
  follows ends the repetition.
\<close>

fun string_body :: "string \<Rightarrow> nat" where
  "string_body [] = 0"
| "string_body [c] = (if c = CHR 0x5C \<or> c = CHR 0x22 then 0 else 1)"
| "string_body (c # d # cs) =
     (if c = CHR 0x5C then (if is_any d then 2 + string_body cs else 0)
      else if c = CHR 0x22 then 0
      else 1 + string_body (d # cs))"

definition match_STRING :: "string \<Rightarrow> nat" where
  "match_STRING s =
     (case s of [] \<Rightarrow> 0
      | c # cs \<Rightarrow>
          if c = CHR 0x22
          then (let n = string_body cs
                in 1 + n + (if take 1 (drop n cs) = [CHR 0x22] then 1 else 0))
          else 0)"

definition match_COMMENT :: "string \<Rightarrow> nat" where
  "match_COMMENT s =
     (case s of [] \<Rightarrow> 0
      | c # cs \<Rightarrow> if c = CHR '';'' then 1 + length (takeWhile is_any cs) else 0)"

definition match_NUMBER :: "string \<Rightarrow> nat" where
  "match_NUMBER s =
     (let n = length (takeWhile is_digit s)
      in if n = 0 then 0
         else if take 1 (drop n s) = ''.''
         then n + 1 + length (takeWhile is_digit (drop (n + 1) s))
         else n)"

definition match_SYMBOL :: "string \<Rightarrow> nat" where
  "match_SYMBOL s = length (takeWhile is_symbol_char s)"

text \<open>
  One match of \<^verbatim>\<open>REGEX\<close> at the start of the input: the alternation is ordered, so the
  first alternative that matches wins. The result is the length of the match and the index
  of the group that matched, as the loop over \<^verbatim>\<open>match[i]\<close> of \<^verbatim>\<open>tokenize\<close> finds it.
\<close>

definition regex_match :: "string \<Rightarrow> (nat \<times> token_type) option" where
  "regex_match s =
     (if 0 < match_WHITESPACE s then Some (match_WHITESPACE s, WHITESPACE)
      else if 0 < match_SPECIAL_CHARS s then Some (match_SPECIAL_CHARS s, SPECIAL_CHARS)
      else if 0 < match_SPECIAL_CHAR s then Some (match_SPECIAL_CHAR s, SPECIAL_CHAR)
      else if 0 < match_STRING s then Some (match_STRING s, STRING)
      else if 0 < match_COMMENT s then Some (match_COMMENT s, COMMENT)
      else if 0 < match_NUMBER s then Some (match_NUMBER s, NUMBER)
      else if 0 < match_SYMBOL s then Some (match_SYMBOL s, SYMBOL)
      else None)"

subsection \<open>\<^verbatim>\<open>parse\<close>\<close>

definition LONG_MAX :: int where
  "LONG_MAX = 2 ^ 63 - 1"

definition LONG_MIN :: int where
  "LONG_MIN = - (2 ^ 63)"

definition digit_val :: "char \<Rightarrow> int" where
  "digit_val c = int (of_char c) - 48"

definition decimal :: "string \<Rightarrow> int" where
  "decimal ds = foldl (\<lambda>n c. 10 * n + digit_val c) 0 ds"

text \<open>
  \<^verbatim>\<open>std::stol\<close> in base 10, for a 64-bit \<^verbatim>\<open>long\<close>: leading white space, an optional
  sign, then the longest run of digits. It throws \<^verbatim>\<open>std::invalid_argument\<close> when there
  is no digit and \<^verbatim>\<open>std::out_of_range\<close> when the value does not fit a \<^verbatim>\<open>long\<close>.
\<close>

definition stol :: "string \<Rightarrow> exn + int" where
  "stol s =
     (let s1 = dropWhile is_space s;
          neg = (take 1 s1 = ''-'');
          s2 = (if take 1 s1 = ''-'' \<or> take 1 s1 = ''+'' then drop 1 s1 else s1);
          ds = takeWhile is_digit s2;
          v = (if neg then - decimal ds else decimal ds)
      in if ds = [] then Inl invalid_argument
         else if v < LONG_MIN \<or> LONG_MAX < v then Inl out_of_range
         else Inr v)"

definition parse :: "stdlib \<Rightarrow> string \<Rightarrow> token_type \<Rightarrow> exn + tvalue" where
  "parse L v t =
     (case t of
        SPECIAL_CHAR \<Rightarrow> Inr (V_CHAR (case v of [] \<Rightarrow> CHR 0x00 | c # _ \<Rightarrow> c))
      | NUMBER \<Rightarrow>
          if CHR ''.'' \<notin> set v
          then (case stol v of Inl e \<Rightarrow> Inl e | Inr n \<Rightarrow> Inr (V_LONG n))
          else (case stod L v of Inl e \<Rightarrow> Inl e | Inr d \<Rightarrow> Inr (V_DOUBLE d))
      | SYMBOL \<Rightarrow>
          if v = ''true'' then Inr (V_BOOL True)
          else if v = ''false'' then Inr (V_BOOL False)
          else Inr (V_STRING v)
      | _ \<Rightarrow> Inr (V_STRING v))"

subsection \<open>\<^verbatim>\<open>tokenize\<close>\<close>

lemma regex_match_pos: "regex_match s = Some (n, t) \<Longrightarrow> 0 < n"
  by (auto simp: regex_match_def split: if_splits)

text \<open>
  The loop over the \<^verbatim>\<open>std::sregex_iterator\<close>. The arguments are the input still to be
  searched, the offset of its first character in the whole input and the local variable
  \<^verbatim>\<open>line\<close>. A search that finds no match at the current offset goes on at the next one.
  An exception of \<^verbatim>\<open>parse\<close> leaves the loop and the function.
\<close>

function tokenize_from :: "stdlib \<Rightarrow> string \<Rightarrow> nat \<Rightarrow> int \<Rightarrow> exn + token list" where
  "tokenize_from L s pos lno =
     (if s = [] then Inr []
      else case regex_match s of
        None \<Rightarrow> tokenize_from L (tl s) (pos + 1) lno
      | Some (n, t) \<Rightarrow>
          (case parse L (take n s) t of
             Inl e \<Rightarrow> Inl e
           | Inr v \<Rightarrow>
               (case tokenize_from L (drop n s) (pos + n)
                       (lno + int (count_list (take n s) (CHR 0x0A))) of
                  Inl e \<Rightarrow> Inl e
                | Inr ts \<Rightarrow>
                    Inr (\<lparr>tok_value = v, tok_type = t, line = lno, column = int pos + 1\<rparr> # ts))))"
  by pat_completeness auto
termination
  by (relation "measure (\<lambda>(L, s, pos, lno). length s)") (auto dest: regex_match_pos)

declare tokenize_from.simps [simp del]

definition tokenize :: "stdlib \<Rightarrow> string \<Rightarrow> exn + token list" where
  "tokenize L input = tokenize_from L input 0 1"


section \<open>Forms (read.hpp, namespace zachlisp::form)\<close>

text \<open>
  \<^verbatim>\<open>Form\<close> is a \<^verbatim>\<open>std::variant\<close> of \<^verbatim>\<open>Special\<close> (name, message, optional token),
  \<^verbatim>\<open>Token\<close>, a \<^verbatim>\<open>std::list\<close>, a \<^verbatim>\<open>std::vector\<close>, and shared pointers to an
  \<^verbatim>\<open>unordered_map\<close> and an \<^verbatim>\<open>unordered_set\<close> of forms. A map is modelled by the list
  of its entries and a set by the list of its elements, both in the order of insertion.
  The containers themselves promise no iteration order, and nothing in \<^verbatim>\<open>read.hpp\<close>
  depends on it: the hash of a map or a set sorts before it combines, and \<^verbatim>\<open>equals\<close>
  compares hashes.
\<close>

datatype form =
    Special string string "token option"
  | Token token
  | List "form list"
  | Vector "form list"
  | Map "(form \<times> form) list"
  | Set "form list"

datatype form_type = SPECIAL | TOKEN | LIST | VECTOR | MAP | SET

subsection \<open>\<^verbatim>\<open>hash_combine\<close>, \<^verbatim>\<open>hash\<close> and \<^verbatim>\<open>equals\<close>\<close>

text \<open>
  \<^verbatim>\<open>seed ^= hasher(v) + 0x9e3779b9 + (seed<<6) + (seed>>2)\<close> on a 64-bit \<^verbatim>\<open>size_t\<close>; the
  second argument is \<^verbatim>\<open>hasher(v)\<close>.
\<close>

definition hash_combine :: "size_t \<Rightarrow> size_t \<Rightarrow> size_t" where
  "hash_combine seed h = seed XOR (h + 0x9e3779b9 + push_bit 6 seed + drop_bit 2 seed)"

text \<open>The template \<^verbatim>\<open>hash<T>(T list)\<close>, with the hash of an item as a parameter.\<close>

definition hash_list :: "('a \<Rightarrow> size_t) \<Rightarrow> 'a list \<Rightarrow> size_t" where
  "hash_list h list = foldl (\<lambda>ret item. hash_combine ret (h item)) 0 list"

text \<open>\<^verbatim>\<open>hash(FormWrapperSet)\<close>: the hashes of the items, sorted, then combined.\<close>

definition hash_set :: "stdlib \<Rightarrow> ('a \<Rightarrow> size_t) \<Rightarrow> 'a list \<Rightarrow> size_t" where
  "hash_set L h s = hash_list (hash_size_t L) (sort (map h s))"

text \<open>
  \<^verbatim>\<open>hash(FormWrapperMap)\<close>: for each entry \<^verbatim>\<open>hash_combine(hash, item.first, item.second)\<close>
  from 0; these are sorted and then combined.
\<close>

definition hash_map :: "stdlib \<Rightarrow> ('a \<Rightarrow> size_t) \<Rightarrow> ('a \<times> 'a) list \<Rightarrow> size_t" where
  "hash_map L h m =
     hash_list (hash_size_t L)
       (sort (map (\<lambda>item. hash_combine (hash_combine 0 (h (fst item))) (h (snd item))) m))"

lemma hash_list_cong [fundef_cong]:
  "xs = ys \<Longrightarrow> (\<And>x. x \<in> set ys \<Longrightarrow> f x = g x) \<Longrightarrow> hash_list f xs = hash_list g ys"
  unfolding hash_list_def by (rule foldl_cong) auto

lemma hash_set_cong [fundef_cong]:
  "xs = ys \<Longrightarrow> (\<And>x. x \<in> set ys \<Longrightarrow> f x = g x) \<Longrightarrow> hash_set L f xs = hash_set L g ys"
  unfolding hash_set_def by (simp cong: map_cong)

lemma hash_map_cong [fundef_cong]:
  assumes "xs = ys"
    and "\<And>k v. (k, v) \<in> set ys \<Longrightarrow> f k = g k"
    and "\<And>k v. (k, v) \<in> set ys \<Longrightarrow> f v = g v"
  shows "hash_map L f xs = hash_map L g ys"
proof -
  have "f (fst item) = g (fst item) \<and> f (snd item) = g (snd item)" if "item \<in> set ys" for item
    using that assms(2,3) [of "fst item" "snd item"] by simp
  then have "map (\<lambda>item. hash_combine (hash_combine 0 (f (fst item))) (f (snd item))) ys =
        map (\<lambda>item. hash_combine (hash_combine 0 (g (fst item))) (g (snd item))) ys"
    by (intro map_cong refl) simp
  then show ?thesis unfolding hash_map_def assms(1) by (rule arg_cong)
qed

fun hash :: "stdlib \<Rightarrow> form \<Rightarrow> size_t" where
  "hash L (Special name message token) = hash_string L message"
| "hash L (Token token) = hash_value L (tok_value token)"
| "hash L (List list) = hash_list (hash L) list"
| "hash L (Vector vector) = hash_list (hash L) vector"
| "hash L (Map m) = hash_map L (hash L) m"
| "hash L (Set s) = hash_set L (hash L) s"

text \<open>\<^verbatim>\<open>// TODO: equality checking probably shouldn't rely on hashes\<close>\<close>

definition equals :: "stdlib \<Rightarrow> form \<Rightarrow> form \<Rightarrow> bool" where
  "equals L fw1 fw2 \<longleftrightarrow> hash L fw1 = hash L fw2"



section \<open>The reader (read.hpp)\<close>

subsection \<open>The lookup tables and the accessors that can throw\<close>

text \<open>The keys of the first two tables are \<^verbatim>\<open>std::variant<char, std::string>\<close>.\<close>

definition SYMBOL_TO_NAME :: "((char + string) \<times> string) list" where
  "SYMBOL_TO_NAME =
     [(Inl (CHR 0x27), ''quote''),
      (Inl (CHR 0x60), ''quasiquote''),
      (Inl (CHR ''~''), ''unquote''),
      (Inl (CHR ''@''), ''deref''),
      (Inl (CHR ''^''), ''with-meta''),
      (Inr ''~@'', ''splice-unquote'')]"

definition DELIMITER_TO_TYPE :: "((char + string) \<times> form_type) list" where
  "DELIMITER_TO_TYPE =
     [(Inl (CHR ''(''), LIST),
      (Inl (CHR ''[''), VECTOR),
      (Inl (CHR ''{''), MAP),
      (Inr ''#{'', SET)]"

definition TYPE_TO_DELIMITER :: "(form_type \<times> char) list" where
  "TYPE_TO_DELIMITER =
     [(LIST, CHR '')''),
      (VECTOR, CHR '']''),
      (MAP, CHR ''}''),
      (SET, CHR ''}'')]"

text \<open>\<^verbatim>\<open>std::unordered_map::at\<close> throws \<^verbatim>\<open>std::out_of_range\<close> for a key that is absent.\<close>

definition map_at :: "('k \<times> 'v) list \<Rightarrow> 'k \<Rightarrow> exn + 'v" where
  "map_at table k = (case map_of table k of None \<Rightarrow> Inl out_of_range | Some v \<Rightarrow> Inr v)"

text \<open>\<^verbatim>\<open>std::get<char>\<close> and \<^verbatim>\<open>std::get<std::string>\<close> throw on another alternative.\<close>

definition get_char :: "tvalue \<Rightarrow> exn + char" where
  "get_char v = (case v of V_CHAR c \<Rightarrow> Inr c | _ \<Rightarrow> Inl bad_variant_access)"

definition get_string :: "tvalue \<Rightarrow> exn + string" where
  "get_string v = (case v of V_STRING s \<Rightarrow> Inr s | _ \<Rightarrow> Inl bad_variant_access)"

subsection \<open>\<^verbatim>\<open>list_to_vector\<close>, \<^verbatim>\<open>list_to_map\<close>, \<^verbatim>\<open>list_to_set\<close>\<close>

text \<open>Every error of the reader is \<^verbatim>\<open>form::Special{"ReaderError", message, token}\<close>.\<close>

definition ReaderError :: "string \<Rightarrow> token option \<Rightarrow> form" where
  "ReaderError message token = Special ''ReaderError'' message token"

definition list_to_vector :: "form list \<Rightarrow> form" where
  "list_to_vector list = Vector list"

text \<open>
  \<^verbatim>\<open>unordered_map::insert\<close> with the key equality \<^verbatim>\<open>FormWrapperEquality\<close>, that is
  \<^verbatim>\<open>equals\<close>: the pair is inserted unless the map already has an entry with an equal key.
  The container looks for that entry in the bucket of the key's hash; keys that
  \<^verbatim>\<open>equals\<close> holds for have the same hash, so they share the bucket.
\<close>

definition map_insert :: "stdlib \<Rightarrow> (form \<times> form) list \<Rightarrow> form \<times> form \<Rightarrow> (form \<times> form) list" where
  "map_insert L m kv = (if \<exists>e \<in> set m. equals L (fst e) (fst kv) then m else m @ [kv])"

definition set_insert :: "stdlib \<Rightarrow> form list \<Rightarrow> form \<Rightarrow> form list" where
  "set_insert L s item = (if \<exists>e \<in> set s. equals L e item then s else s @ [item])"

text \<open>The loop of \<^verbatim>\<open>list_to_map\<close>; the arguments are the list from \<^verbatim>\<open>list_it\<close> on and the map \<^verbatim>\<open>m\<close>.\<close>

fun list_to_map_loop :: "stdlib \<Rightarrow> form list \<Rightarrow> (form \<times> form) list \<Rightarrow> form" where
  "list_to_map_loop L [] m = Map m"
| "list_to_map_loop L [key] m = ReaderError ''Map must contain even number of forms'' None"
| "list_to_map_loop L (key # val # list) m = list_to_map_loop L list (map_insert L m (key, val))"

definition list_to_map :: "stdlib \<Rightarrow> form list \<Rightarrow> form" where
  "list_to_map L list = list_to_map_loop L list []"

definition list_to_set :: "stdlib \<Rightarrow> form list \<Rightarrow> form" where
  "list_to_set L list = Set (foldl (set_insert L) [] list)"

subsection \<open>The cursor\<close>

text \<open>
  A \<^verbatim>\<open>std::list<Token>::const_iterator\<close> into the token list is modelled by the tokens from
  its position on: \<^verbatim>\<open>*it\<close> is the head, \<^verbatim>\<open>++it\<close> the tail, \<^verbatim>\<open>tokens->end()\<close> the empty
  list.
\<close>

fun read_useful_token :: "token list \<Rightarrow> (token \<times> token list) option" where
  "read_useful_token [] = None"
| "read_useful_token (token # it) =
     (case tok_type token of
        WHITESPACE \<Rightarrow> read_useful_token it
      | COMMENT \<Rightarrow> read_useful_token it
      | _ \<Rightarrow> Some (token, token # it))"

text \<open>The groups of \<^verbatim>\<open>case\<close> labels of the two \<^verbatim>\<open>switch (c)\<close> statements.\<close>

definition is_open_delimiter :: "char \<Rightarrow> bool" where
  "is_open_delimiter c \<longleftrightarrow> c = CHR ''('' \<or> c = CHR ''['' \<or> c = CHR ''{''"

definition is_close_delimiter :: "char \<Rightarrow> bool" where
  "is_close_delimiter c \<longleftrightarrow> c = CHR '')'' \<or> c = CHR '']'' \<or> c = CHR ''}''"

definition is_quote_char :: "char \<Rightarrow> bool" where
  "is_quote_char c \<longleftrightarrow> c = CHR 0x27 \<or> c = CHR 0x60 \<or> c = CHR ''~'' \<or> c = CHR ''@''"

text \<open>The \<^verbatim>\<open>switch (form_type)\<close> of \<^verbatim>\<open>read_coll\<close> at the end delimiter.\<close>

definition coll_form :: "stdlib \<Rightarrow> form_type \<Rightarrow> form list \<Rightarrow> form" where
  "coll_form L form_type forms =
     (case form_type of
        VECTOR \<Rightarrow> list_to_vector forms
      | MAP \<Rightarrow> list_to_map L forms
      | SET \<Rightarrow> list_to_set L forms
      | _ \<Rightarrow> List forms)"

text \<open>
  The statement \<^verbatim>\<open>if (token.type == token::type::SPECIAL_CHAR) { ... }\<close> at the head of the
  loop body of \<^verbatim>\<open>read_coll\<close>, where \<^verbatim>\<open>it\<close> points at \<^verbatim>\<open>token\<close>: \<^verbatim>\<open>Some r\<close> when it
  returns \<^verbatim>\<open>r\<close> from \<^verbatim>\<open>read_coll\<close>, \<^verbatim>\<open>None\<close> when control goes on to the call of
  \<^verbatim>\<open>read_form\<close>.
\<close>

definition coll_delimiter ::
  "stdlib \<Rightarrow> token \<Rightarrow> token list \<Rightarrow> form_type \<Rightarrow> char \<Rightarrow> form list \<Rightarrow>
   exn + (form \<times> token list) option" where
  "coll_delimiter L token it form_type end_delimiter forms =
     (if tok_type token = SPECIAL_CHAR
      then (case get_char (tok_value token) of
              Inl e \<Rightarrow> Inl e
            | Inr c \<Rightarrow>
                if c = end_delimiter then Inr (Some (coll_form L form_type forms, tl it))
                else if is_close_delimiter c
                then Inr (Some (ReaderError (''Unmatched delimiter: '' @ [c]) (Some token), []))
                else Inr None)
      else Inr None)"

definition named_token :: "string \<Rightarrow> token \<Rightarrow> token" where
  "named_token name token =
     \<lparr>tok_value = V_STRING name, tok_type = SYMBOL, line = line token, column = column token\<rparr>"

subsection \<open>\<^verbatim>\<open>read_form\<close>, \<^verbatim>\<open>read_coll\<close>, the two expansions and \<^verbatim>\<open>read_useful_form\<close>\<close>

text \<open>
  \<^verbatim>\<open>read_coll_loop\<close> is the \<^verbatim>\<open>while\<close> loop of \<^verbatim>\<open>read_coll\<close>; its last argument is the
  local variable \<^verbatim>\<open>forms\<close>.
\<close>

function
  read_form :: "stdlib \<Rightarrow> token list \<Rightarrow> exn + (form \<times> token list)" and
  read_coll :: "stdlib \<Rightarrow> token list \<Rightarrow> form_type \<Rightarrow> exn + (form \<times> token list)" and
  read_coll_loop ::
    "stdlib \<Rightarrow> token list \<Rightarrow> form_type \<Rightarrow> char \<Rightarrow> form list \<Rightarrow> exn + (form \<times> token list)" and
  expand_quoted_form :: "stdlib \<Rightarrow> token list \<Rightarrow> token \<Rightarrow> exn + (form \<times> token list)" and
  expand_meta_quoted_form :: "stdlib \<Rightarrow> token list \<Rightarrow> token \<Rightarrow> exn + (form \<times> token list)" and
  read_useful_form :: "stdlib \<Rightarrow> token list \<Rightarrow> exn + (form \<times> token list) option"
where
  "read_form L it =
     (case it of
        [] \<Rightarrow> Inl undefined_behaviour
      | token # next \<Rightarrow>
          (case tok_type token of
             SPECIAL_CHARS \<Rightarrow>
               (case get_string (tok_value token) of
                  Inl e \<Rightarrow> Inl e
                | Inr s \<Rightarrow>
                    if s = ''#{''
                    then (case map_at DELIMITER_TO_TYPE (Inr s) of
                            Inl e \<Rightarrow> Inl e
                          | Inr form_type \<Rightarrow> read_coll L next form_type)
                    else if s = ''~@''
                    then (case map_at SYMBOL_TO_NAME (Inr s) of
                            Inl e \<Rightarrow> Inl e
                          | Inr name \<Rightarrow> expand_quoted_form L next (named_token name token))
                    else Inr (Token token, next))
           | SPECIAL_CHAR \<Rightarrow>
               (case get_char (tok_value token) of
                  Inl e \<Rightarrow> Inl e
                | Inr c \<Rightarrow>
                    if is_open_delimiter c
                    then (case map_at DELIMITER_TO_TYPE (Inl c) of
                            Inl e \<Rightarrow> Inl e
                          | Inr form_type \<Rightarrow> read_coll L next form_type)
                    else if is_close_delimiter c
                    then Inr (ReaderError (''Unmatched delimiter: '' @ [c]) (Some token), [])
                    else if is_quote_char c
                    then (case map_at SYMBOL_TO_NAME (Inl c) of
                            Inl e \<Rightarrow> Inl e
                          | Inr name \<Rightarrow> expand_quoted_form L next (named_token name token))
                    else if c = CHR ''^''
                    then (case map_at SYMBOL_TO_NAME (Inl c) of
                            Inl e \<Rightarrow> Inl e
                          | Inr name \<Rightarrow> expand_meta_quoted_form L next (named_token name token))
                    else Inr (Token token, next))
           | STRING \<Rightarrow>
               (case get_string (tok_value token) of
                  Inl e \<Rightarrow> Inl e
                | Inr s \<Rightarrow>
                    if length s < 2 \<or> last s \<noteq> CHR 0x22
                    then Inr (ReaderError ''EOF: unbalanced quote'' (Some token), [])
                    else Inr (Token (token\<lparr>tok_value := V_STRING (take (length s - 2) (drop 1 s))\<rparr>),
                              next))
           | _ \<Rightarrow> Inr (Token token, next)))"
| "read_coll L it form_type =
     (case map_at TYPE_TO_DELIMITER form_type of
        Inl e \<Rightarrow> Inl e
      | Inr end_delimiter \<Rightarrow> read_coll_loop L it form_type end_delimiter [])"
| "read_coll_loop L it form_type end_delimiter forms =
     (case read_useful_token it of
        None \<Rightarrow>
          Inr (ReaderError (''EOF: no '' @ [end_delimiter] @ '' found'') None, [])
      | Some (token, it1) \<Rightarrow>
          (case coll_delimiter L token it1 form_type end_delimiter forms of
             Inl e \<Rightarrow> Inl e
           | Inr (Some ret) \<Rightarrow> Inr ret
           | Inr None \<Rightarrow>
               (case read_form L it1 of
                  Inl e \<Rightarrow> Inl e
                | Inr (form, it2) \<Rightarrow>
                    read_coll_loop L it2 form_type end_delimiter (forms @ [form]))))"
| "expand_quoted_form L it token =
     (case read_useful_form L it of
        Inl e \<Rightarrow> Inl e
      | Inr None \<Rightarrow> Inr (ReaderError ''EOF: Nothing found after quote'' (Some token), [])
      | Inr (Some (form, it1)) \<Rightarrow> Inr (List [Token token, form], it1))"
| "expand_meta_quoted_form L it token =
     (case read_useful_form L it of
        Inl e \<Rightarrow> Inl e
      | Inr None \<Rightarrow> Inr (ReaderError ''EOF: Nothing found after ^'' (Some token), [])
      | Inr (Some (form, it1)) \<Rightarrow>
          (case read_useful_form L it1 of
             Inl e \<Rightarrow> Inl e
           | Inr None \<Rightarrow> Inr (ReaderError ''EOF: Nothing found after metadata'' (Some token), [])
           | Inr (Some (form2, it2)) \<Rightarrow> Inr (List [Token token, form2, form], it2)))"
| "read_useful_form L it =
     (case read_useful_token it of
        None \<Rightarrow> Inr None
      | Some (token, it1) \<Rightarrow>
          (case read_form L it1 of
             Inl e \<Rightarrow> Inl e
           | Inr ret \<Rightarrow> Inr (Some ret)))"
  by pat_completeness auto

lemma read_useful_token_Some:
  "read_useful_token it = Some (token, it1) \<Longrightarrow>
   (\<exists>next. it1 = token # next) \<and> length it1 \<le> length it \<and>
   tok_type token \<noteq> WHITESPACE \<and> tok_type token \<noteq> COMMENT"
  by (induction it) (auto split: token_type.splits)

lemmas reader_pinduct =
  read_form_read_coll_read_coll_loop_expand_quoted_form_expand_meta_quoted_form_read_useful_form.pinduct

abbreviation (input) reader_dom where
  "reader_dom \<equiv>
   read_form_read_coll_read_coll_loop_expand_quoted_form_expand_meta_quoted_form_read_useful_form_dom"

text \<open>
  Wherever the functions are defined, the cursor they return is a suffix of the one they
  got, and \<^verbatim>\<open>read_form\<close> returns a shorter one. This is what termination needs.
\<close>

lemma read_useful_token_suffix:
  "read_useful_token it = Some (token, it1) \<Longrightarrow> suffix it1 it"
  by (induction it) (auto split: token_type.splits intro: suffix_ConsI)

lemma coll_delimiter_suffix:
  "coll_delimiter L token it form_type end_delimiter forms = Inr (Some (f, out)) \<Longrightarrow>
   suffix out it"
  by (auto simp: coll_delimiter_def suffix_tl split: if_splits sum.splits)

lemma reader_suffix_partial:
  "reader_dom (Inl (Inl (L, it))) \<Longrightarrow>
     \<forall>f out. read_form L it = Inr (f, out) \<longrightarrow> suffix out it \<and> length out < length it"
  "reader_dom (Inl (Inr (Inl (L, it2, form_type)))) \<Longrightarrow>
     \<forall>f out. read_coll L it2 form_type = Inr (f, out) \<longrightarrow> suffix out it2"
  "reader_dom (Inl (Inr (Inr (L, it3, form_type3, end_delimiter, forms)))) \<Longrightarrow>
     \<forall>f out. read_coll_loop L it3 form_type3 end_delimiter forms = Inr (f, out) \<longrightarrow>
       suffix out it3"
  "reader_dom (Inr (Inl (L, it4, token))) \<Longrightarrow>
     \<forall>f out. expand_quoted_form L it4 token = Inr (f, out) \<longrightarrow> suffix out it4"
  "reader_dom (Inr (Inr (Inl (L, it5, token5)))) \<Longrightarrow>
     \<forall>f out. expand_meta_quoted_form L it5 token5 = Inr (f, out) \<longrightarrow> suffix out it5"
  "reader_dom (Inr (Inr (Inr (L, it6)))) \<Longrightarrow>
     \<forall>f out. read_useful_form L it6 = Inr (Some (f, out)) \<longrightarrow>
       suffix out it6 \<and> length out < length it6"
proof (induct rule: reader_pinduct)
  case (1 L it)
  show ?case
  proof (intro allI impI)
    fix f out
    assume r: "read_form L it = Inr (f, out)"
    note ps = read_form.psimps [OF "1.hyps"(1)]
    from r ps obtain token "next" where it: "it = token # next"
      by (cases it) auto
    from r have r': "read_form L (token # next) = Inr (f, out)"
      by (simp add: it)
    note ps' = ps [unfolded it list.case]
    have "suffix out next"
    proof (cases "tok_type token")
      case SPECIAL_CHARS
      then show ?thesis
        using r' "1.hyps"(2) [OF it SPECIAL_CHARS] "1.hyps"(3) [OF it SPECIAL_CHARS]
        unfolding ps' it
        by (auto split: sum.splits if_splits)
    next
      case SPECIAL_CHAR
      then show ?thesis
        using r' "1.hyps"(4) [OF it SPECIAL_CHAR] "1.hyps"(5) [OF it SPECIAL_CHAR]
          "1.hyps"(6) [OF it SPECIAL_CHAR]
        unfolding ps' it
        by (auto split: sum.splits if_splits)
    next
      case STRING
      then show ?thesis
        using r' unfolding ps' it by (auto split: sum.splits if_splits)
    qed (use r' in \<open>auto simp add: ps' it\<close>)
    then show "suffix out it \<and> length out < length it"
      using suffix_length_le [of out "next"] by (simp add: it suffix_ConsI)
  qed
next
  case (2 L it form_type)
  then show ?case
    by (auto simp: read_coll.psimps split: sum.splits)
next
  case (3 L it form_type end_delimiter forms)
  show ?case
  proof (intro allI impI)
    fix f out
    assume r: "read_coll_loop L it form_type end_delimiter forms = Inr (f, out)"
    note ps = read_coll_loop.psimps [OF "3.hyps"(1)]
    show "suffix out it"
    proof (cases "read_useful_token it")
      case None
      with r ps show ?thesis by auto
    next
      case (Some p)
      obtain token it1 where p: "p = (token, it1)" by (cases p)
      note tok = Some [unfolded p]
      have le1: "suffix it1 it"
        using read_useful_token_suffix [OF tok] .
      show ?thesis
      proof (cases "coll_delimiter L token it1 form_type end_delimiter forms")
        case (Inl e)
        with r ps tok show ?thesis by simp
      next
        case (Inr d)
        show ?thesis
        proof (cases d)
          case (Some ret)
          with r ps tok Inr have "ret = (f, out)" by simp
          with coll_delimiter_suffix [of L token it1 form_type end_delimiter forms f out] Inr Some
          have "suffix out it1" by simp
          with le1 show ?thesis by (blast intro: suffix_order.trans)
        next
          case None
          note d = Inr [unfolded None]
          from r ps tok d obtain form it2 where
            rf: "read_form L it1 = Inr (form, it2)" and
            rl: "read_coll_loop L it2 form_type end_delimiter (forms @ [form]) = Inr (f, out)"
            by (auto split: sum.splits)
          from "3.hyps"(2) [OF tok refl d refl] rf have "suffix it2 it1" by blast
          moreover from "3.hyps"(3) [OF tok refl d refl rf refl] rl
          have "suffix out it2" by blast
          ultimately show ?thesis using le1 by (blast intro: suffix_order.trans)
        qed
      qed
    qed
  qed
next
  case (4 L it token)
  then show ?case
    by (auto simp: expand_quoted_form.psimps split: sum.splits option.splits)
next
  case (5 L it token)
  show ?case
  proof (intro allI impI)
    fix f out
    assume r: "expand_meta_quoted_form L it token = Inr (f, out)"
    note ps = expand_meta_quoted_form.psimps [OF "5.hyps"(1)]
    show "suffix out it"
    proof (cases "read_useful_form L it")
      case (Inl e)
      with r ps show ?thesis by simp
    next
      case (Inr o1)
      show ?thesis
      proof (cases o1)
        case None
        with r ps Inr show ?thesis by auto
      next
        case (Some p)
        obtain form it1 where p: "p = (form, it1)" by (cases p)
        note r1 = Inr [unfolded Some p]
        from "5.hyps"(2) r1 have l1: "suffix it1 it" by blast
        show ?thesis
        proof (cases "read_useful_form L it1")
          case (Inl e)
          with r ps r1 show ?thesis by simp
        next
          case (Inr o2)
          show ?thesis
          proof (cases o2)
            case None
            with r ps r1 Inr show ?thesis by auto
          next
            case (Some q)
            obtain form2 it2 where q: "q = (form2, it2)" by (cases q)
            note r2 = Inr [unfolded Some q]
            from "5.hyps"(3) [OF r1 refl refl] r2 have "suffix it2 it1" by blast
            moreover from r ps r1 r2 have "out = it2" by simp
            ultimately show ?thesis using l1 by (blast intro: suffix_order.trans)
          qed
        qed
      qed
    qed
  qed
next
  case (6 L it)
  show ?case
  proof (intro allI impI)
    fix f out
    assume r: "read_useful_form L it = Inr (Some (f, out))"
    note ps = read_useful_form.psimps [OF "6.hyps"(1)]
    from r ps obtain token it1 where tok: "read_useful_token it = Some (token, it1)"
      by (cases "read_useful_token it") auto
    from r ps tok have rf: "read_form L it1 = Inr (f, out)"
      by (auto split: sum.splits)
    from "6.hyps"(2) [OF tok refl] rf have "suffix out it1 \<and> length out < length it1" by blast
    with read_useful_token_suffix [OF tok] suffix_length_le [of it1 it]
    show "suffix out it \<and> length out < length it"
      by (auto intro: suffix_order.trans)
  qed
qed

lemma read_useful_token_length:
  "read_useful_token it = Some (token, it1) \<Longrightarrow> length it1 \<le> length it"
  by (simp add: read_useful_token_Some)

lemma reader_total: "All reader_dom"
proof (relation "measure
     (\<lambda>x. case x of
        Inl (Inl (L, it)) \<Rightarrow> 3 * length it
      | Inl (Inr (Inl (L, it, form_type))) \<Rightarrow> 3 * length it + 2
      | Inl (Inr (Inr (L, it, form_type, end_delimiter, forms))) \<Rightarrow> 3 * length it + 1
      | Inr (Inl (L, it, token)) \<Rightarrow> 3 * length it + 2
      | Inr (Inr (Inl (L, it, token))) \<Rightarrow> 3 * length it + 2
      | Inr (Inr (Inr (L, it))) \<Rightarrow> 3 * length it + 1)",
    goal_cases)
  case (8 L it form_type end_delimiter forms x2 x y b)
  then show ?case
    using read_useful_token_length [of it x y] by simp
next
  case (9 L it form_type end_delimiter forms x2 x y b ba xa ya)
  then show ?case
    using read_useful_token_length [of it x y] reader_suffix_partial(1) [of L y]
    by fastforce
next
  case (12 L it b x2 x y)
  then show ?case
    using reader_suffix_partial(6) [of L it] by fastforce
next
  case (13 L it x2 x y)
  then show ?case
    using read_useful_token_length [of it x y] by simp
qed simp_all

termination read_form
  by (rule reader_total)

declare read_form.simps [simp del] read_coll.simps [simp del] read_coll_loop.simps [simp del]
  expand_quoted_form.simps [simp del] expand_meta_quoted_form.simps [simp del]
  read_useful_form.simps [simp del]

text \<open>The same bounds, now without the domain hypothesis.\<close>

lemma read_form_suffix:
  "read_form L it = Inr (f, out) \<Longrightarrow> suffix out it \<and> length out < length it"
  using reader_suffix_partial(1) reader_total by blast

lemma read_coll_loop_suffix:
  "read_coll_loop L it form_type end_delimiter forms = Inr (f, out) \<Longrightarrow> suffix out it"
  using reader_suffix_partial(3) reader_total by blast

lemma read_useful_form_suffix:
  "read_useful_form L it = Inr (Some (f, out)) \<Longrightarrow> suffix out it \<and> length out < length it"
  using reader_suffix_partial(6) reader_total by blast

lemma read_useful_form_length:
  "read_useful_form L it = Inr (Some (f, out)) \<Longrightarrow> length out < length it"
  by (simp add: read_useful_form_suffix)

subsection \<open>\<^verbatim>\<open>read_forms\<close> and \<^verbatim>\<open>read\<close>\<close>

text \<open>The \<^verbatim>\<open>while\<close> loop of \<^verbatim>\<open>read_forms\<close>; the last argument is the local variable \<^verbatim>\<open>forms\<close>.\<close>

function read_forms_loop :: "stdlib \<Rightarrow> token list \<Rightarrow> form list \<Rightarrow> exn + form list" where
  "read_forms_loop L it forms =
     (case read_useful_form L it of
        Inl e \<Rightarrow> Inl e
      | Inr None \<Rightarrow> Inr forms
      | Inr (Some (form, it1)) \<Rightarrow> read_forms_loop L it1 (forms @ [form]))"
  by pat_completeness auto
termination
  by (relation "measure (\<lambda>(L, it, forms). length it)") (auto dest: read_useful_form_length)

declare read_forms_loop.simps [simp del]

definition read_forms :: "stdlib \<Rightarrow> token list \<Rightarrow> exn + form list" where
  "read_forms L tokens = read_forms_loop L tokens []"

definition read :: "stdlib \<Rightarrow> string \<Rightarrow> exn + form list" where
  "read L input =
     (case tokenize L input of
        Inl e \<Rightarrow> Inl e
      | Inr tokens \<Rightarrow> read_forms L tokens)"

section \<open>Properties of the reader\<close>

subsection \<open>The dispatch of \<^verbatim>\<open>read_form\<close>, case by case\<close>

lemma close_not_open: "is_close_delimiter c \<Longrightarrow> \<not> is_open_delimiter c"
  by (auto simp: is_close_delimiter_def is_open_delimiter_def)

lemma quote_not_delimiter: "is_quote_char c \<Longrightarrow> \<not> is_open_delimiter c \<and> \<not> is_close_delimiter c"
  by (auto simp: is_close_delimiter_def is_open_delimiter_def is_quote_char_def)

lemma caret_not_other:
  "\<not> is_open_delimiter (CHR ''^'') \<and> \<not> is_close_delimiter (CHR ''^'') \<and> \<not> is_quote_char (CHR ''^'')"
  by (simp add: is_close_delimiter_def is_open_delimiter_def is_quote_char_def)

lemma end_delimiter_close:
  "map_at TYPE_TO_DELIMITER form_type = Inr end_delimiter \<Longrightarrow> is_close_delimiter end_delimiter"
  by (cases form_type) (auto simp: map_at_def TYPE_TO_DELIMITER_def is_close_delimiter_def)

lemma read_form_close:
  assumes "tok_type token = SPECIAL_CHAR" and "tok_value token = V_CHAR c"
    and "is_close_delimiter c"
  shows "read_form L (token # next) =
           Inr (ReaderError (''Unmatched delimiter: '' @ [c]) (Some token), [])"
  using assms by (simp add: read_form.simps get_char_def close_not_open)

lemma quote_name:
  "is_quote_char c \<Longrightarrow> \<exists>name. map_at SYMBOL_TO_NAME (Inl c) = Inr name"
  by (auto simp: is_quote_char_def map_at_def SYMBOL_TO_NAME_def)

lemma read_form_quote:
  assumes "tok_type token = SPECIAL_CHAR" and "tok_value token = V_CHAR c"
    and "map_at SYMBOL_TO_NAME (Inl c) = Inr name" and "is_quote_char c"
  shows "read_form L (token # next) = expand_quoted_form L next (named_token name token)"
  using assms by (simp add: read_form.simps get_char_def quote_not_delimiter)

lemma read_form_splice:
  assumes "tok_type token = SPECIAL_CHARS" and "tok_value token = V_STRING ''~@''"
  shows "read_form L (token # next) =
           expand_quoted_form L next (named_token ''splice-unquote'' token)"
  using assms by (simp add: read_form.simps get_string_def map_at_def SYMBOL_TO_NAME_def)

lemma read_form_meta:
  assumes "tok_type token = SPECIAL_CHAR" and "tok_value token = V_CHAR (CHR ''^'')"
  shows "read_form L (token # next) =
           expand_meta_quoted_form L next (named_token ''with-meta'' token)"
  using assms
  by (simp add: read_form.simps get_char_def caret_not_other map_at_def SYMBOL_TO_NAME_def)

lemma read_useful_form_Nil [simp]: "read_useful_form L [] = Inr None"
  by (simp add: read_useful_form.simps)

lemma read_forms_loop_Nil [simp]: "read_forms_loop L [] forms = Inr forms"
  by (simp add: read_forms_loop.simps)

lemma read_useful_form_Some:
  "read_useful_token it = Some (token, it1) \<Longrightarrow>
   read_useful_form L it = (case read_form L it1 of Inl e \<Rightarrow> Inl e | Inr ret \<Rightarrow> Inr (Some ret))"
  by (simp add: read_useful_form.simps)

lemma read_useful_form_None:
  "read_useful_token it = None \<Longrightarrow> read_useful_form L it = Inr None"
  by (simp add: read_useful_form.simps)

subsection \<open>The quote sugar\<close>

text \<open>
  The quote sugar as the specification lists it: the name that each sugar token expands
  to, \<open>None\<close> for every other token. It is compared below with what \<^verbatim>\<open>read_form\<close> looks
  up in \<^verbatim>\<open>SYMBOL_TO_NAME\<close>.
\<close>

definition sugar_name :: "token \<Rightarrow> string option" where
  "sugar_name token =
     (case tok_type token of
        SPECIAL_CHAR \<Rightarrow>
          (case tok_value token of
             V_CHAR c \<Rightarrow>
               if c = CHR 0x27 then Some ''quote''
               else if c = CHR 0x60 then Some ''quasiquote''
               else if c = CHR ''~'' then Some ''unquote''
               else if c = CHR ''@'' then Some ''deref''
               else None
           | _ \<Rightarrow> None)
      | SPECIAL_CHARS \<Rightarrow>
          (case tok_value token of
             V_STRING s \<Rightarrow> if s = ''~@'' then Some ''splice-unquote'' else None
           | _ \<Rightarrow> None)
      | _ \<Rightarrow> None)"

lemma sugar_name_char:
  assumes "tok_type token = SPECIAL_CHAR" and "sugar_name token = Some name"
  shows "\<exists>c. tok_value token = V_CHAR c \<and> is_quote_char c \<and>
             map_at SYMBOL_TO_NAME (Inl c) = Inr name"
proof (cases "tok_value token")
  case (V_CHAR c)
  with assms show ?thesis
    by (simp add: sugar_name_def is_quote_char_def map_at_def SYMBOL_TO_NAME_def
        split: if_splits)
qed (use assms in \<open>simp_all add: sugar_name_def\<close>)

lemma sugar_name_chars:
  assumes "tok_type token = SPECIAL_CHARS" and "sugar_name token = Some name"
  shows "tok_value token = V_STRING ''~@'' \<and> name = ''splice-unquote''"
proof (cases "tok_value token")
  case (V_STRING s)
  with assms show ?thesis
    by (simp add: sugar_name_def split: if_splits)
qed (use assms in \<open>simp_all add: sugar_name_def\<close>)

lemma sugar_name_type:
  assumes "sugar_name token = Some name"
  shows "tok_type token = SPECIAL_CHAR \<or> tok_type token = SPECIAL_CHARS"
  using assms by (cases "tok_type token") (simp_all add: sugar_name_def)

lemma read_form_sugar:
  assumes "sugar_name token = Some name"
  shows "read_form L (token # it) = expand_quoted_form L it (named_token name token)"
proof -
  consider "tok_type token = SPECIAL_CHAR" | "tok_type token = SPECIAL_CHARS"
    using sugar_name_type [OF assms] by blast
  then show ?thesis
  proof cases
    case 1
    from sugar_name_char [OF 1 assms] obtain c where
      "tok_value token = V_CHAR c" "is_quote_char c" "map_at SYMBOL_TO_NAME (Inl c) = Inr name"
      by blast
    then show ?thesis
      using read_form_quote [OF 1, of c name L it] by simp
  next
    case 2
    from sugar_name_chars [OF 2 assms] show ?thesis
      using read_form_splice [OF 2, of L it] by simp
  qed
qed

section \<open>One instance of the library parameters\<close>

text \<open>
  Concrete inputs need a concrete library. In this one \<^verbatim>\<open>std::hash<std::size_t>\<close> is the
  identity (as in libstdc++ and libc++), the hash of a string is a polynomial in its
  bytes, the hash of a token value is the hash of what it holds, and \<^verbatim>\<open>std::stod\<close>
  returns the exact value of the decimal literal. Nothing below depends on these choices
  except the closed examples that name \<open>sample_stdlib\<close>.
\<close>

definition sample_hash_string :: "string \<Rightarrow> size_t" where
  "sample_hash_string s = foldl (\<lambda>h c. 31 * h + of_char c) 7 s"

definition sample_hash_value :: "tvalue \<Rightarrow> size_t" where
  "sample_hash_value v =
     (case v of
        V_BOOL b \<Rightarrow> (if b then 1 else 0)
      | V_CHAR c \<Rightarrow> of_char c
      | V_LONG n \<Rightarrow> word_of_int n
      | V_DOUBLE d \<Rightarrow> word_of_int \<lfloor>d\<rfloor>
      | V_STRING s \<Rightarrow> sample_hash_string s)"

definition sample_stod :: "string \<Rightarrow> exn + real" where
  "sample_stod s =
     (let ip = takeWhile is_digit s; fp = takeWhile is_digit (drop (length ip + 1) s)
      in if ip = [] then Inl invalid_argument
         else Inr (real_of_int (decimal ip) + real_of_int (decimal fp) / 10 ^ length fp))"

definition sample_stdlib :: stdlib where
  "sample_stdlib =
     \<lparr>stod = sample_stod, hash_value = sample_hash_value,
      hash_string = sample_hash_string, hash_size_t = (\<lambda>h. h)\<rparr>"

section \<open>Properties of the hash and of the containers\<close>

subsection \<open>Building maps\<close>

text \<open>
  The sub-forms of a map body, paired from left to right; a last form without a partner is
  left out.
\<close>

fun pairs :: "'a list \<Rightarrow> ('a \<times> 'a) list" where
  "pairs (k # v # rest) = (k, v) # pairs rest"
| "pairs _ = []"

text \<open>No two keys of the entries are equal for the container, that is for \<^verbatim>\<open>equals\<close>.\<close>

fun distinct_keys :: "stdlib \<Rightarrow> (form \<times> form) list \<Rightarrow> bool" where
  "distinct_keys L [] \<longleftrightarrow> True"
| "distinct_keys L (e # es) \<longleftrightarrow> \<not> (\<exists>e' \<in> set es. equals L (fst e) (fst e')) \<and> distinct_keys L es"

lemma list_to_map_loop_eq:
  "list_to_map_loop L list m =
     (if odd (length list) then ReaderError ''Map must contain even number of forms'' None
      else Map (foldl (map_insert L) m (pairs list)))"
  by (induction L list m rule: list_to_map_loop.induct) simp_all

lemma equals_sym: "equals L a b \<longleftrightarrow> equals L b a"
  by (auto simp: equals_def)

lemma distinct_keys_append:
  "distinct_keys L (m @ es) \<longleftrightarrow>
     distinct_keys L m \<and> distinct_keys L es \<and>
     \<not> (\<exists>e \<in> set m. \<exists>e' \<in> set es. equals L (fst e) (fst e'))"
  by (induction m) auto

lemma foldl_map_insert_distinct:
  "distinct_keys L (m @ es) \<Longrightarrow> foldl (map_insert L) m es = m @ es"
proof (induction es arbitrary: m)
  case Nil
  then show ?case by simp
next
  case (Cons e es)
  from Cons.prems have ne: "\<not> (\<exists>e' \<in> set m. equals L (fst e') (fst e))"
    by (auto simp: distinct_keys_append)
  then have ins: "map_insert L m e = m @ [e]"
    by (simp add: map_insert_def)
  from Cons.prems have "distinct_keys L ((m @ [e]) @ es)" by simp
  from Cons.IH [OF this] ins show ?case by simp
qed


subsection \<open>The hash of a map or a set does not depend on the order of its entries\<close>

lemma sort_mset_cong: "mset xs = mset ys \<Longrightarrow> sort xs = sort ys"
  for xs ys :: "'a::linorder list"
  by (rule properties_for_sort) simp_all

lemma hash_map_perm: "mset m = mset m' \<Longrightarrow> hash_map L h m = hash_map L h m'"
proof -
  assume "mset m = mset m'"
  then have "mset (map (\<lambda>item. hash_combine (hash_combine 0 (h (fst item))) (h (snd item))) m) =
             mset (map (\<lambda>item. hash_combine (hash_combine 0 (h (fst item))) (h (snd item))) m')"
    by simp
  then show ?thesis
    unfolding hash_map_def by (simp only: sort_mset_cong [OF \<open>mset (map _ m) = _\<close>])
qed

lemma hash_set_perm: "mset s = mset s' \<Longrightarrow> hash_set L h s = hash_set L h s'"
proof -
  assume "mset s = mset s'"
  then have "mset (map h s) = mset (map h s')"
    by simp
  then show ?thesis
    unfolding hash_set_def by (simp only: sort_mset_cong [OF \<open>mset (map h s) = _\<close>])
qed

text \<open>
  \<^verbatim>\<open>list_to_set\<close> keeps one element for each hash that occurs, so the hash of the set it
  builds depends only on the set of the hashes of the items.
\<close>

lemma set_insert_hashes:
  "set (map (hash L) (foldl (set_insert L) s list)) = hash L ` (set s \<union> set list)"
proof (induction list arbitrary: s)
  case Nil
  then show ?case by simp
next
  case (Cons x list)
  have "hash L ` set (set_insert L s x) = hash L ` (insert x (set s))"
  proof (cases "\<exists>e \<in> set s. equals L e x")
    case True
    then obtain e where "e \<in> set s" "hash L e = hash L x"
      by (auto simp: equals_def)
    then have "hash L x \<in> hash L ` set s"
      by (metis imageI)
    with True show ?thesis
      by (auto simp: set_insert_def)
  next
    case False
    then show ?thesis
      by (simp add: set_insert_def)
  qed
  with Cons.IH [of "set_insert L s x"] show ?case
    by (simp add: image_Un)
qed

lemma set_insert_distinct:
  "distinct (map (hash L) s) \<Longrightarrow> distinct (map (hash L) (foldl (set_insert L) s list))"
proof (induction list arbitrary: s)
  case Nil
  then show ?case by simp
next
  case (Cons x list)
  from Cons.prems have "distinct (map (hash L) (set_insert L s x))"
    by (auto simp: set_insert_def equals_def)
  from Cons.IH [OF this] show ?case by simp
qed

lemma hash_list_to_set:
  "hash L (list_to_set L list) =
     hash_list (hash_size_t L) (sorted_list_of_set (hash L ` set list))"
proof -
  let ?hs = "map (hash L) (foldl (set_insert L) [] list)"
  have "distinct ?hs" by (rule set_insert_distinct) simp
  then have "remdups ?hs = ?hs"
    by (rule distinct_remdups_id)
  with sorted_list_of_set_sort_remdups [of ?hs]
  have "sort ?hs = sorted_list_of_set (set ?hs)"
    by (simp only:)
  also have "set ?hs = hash L ` set list"
    using set_insert_hashes [of L "[]" list] by simp
  finally show ?thesis
    by (simp only: list_to_set_def hash_set_def hash.simps)
qed

lemma distinct_keys_iff: "distinct_keys L es \<longleftrightarrow> distinct (map (\<lambda>e. hash L (fst e)) es)"
  by (induction es) (auto simp: equals_def)

lemma distinct_keys_perm: "mset es = mset es' \<Longrightarrow> distinct_keys L es \<longleftrightarrow> distinct_keys L es'"
proof -
  assume "mset es = mset es'"
  then have "mset (map (\<lambda>e. hash L (fst e)) es) = mset (map (\<lambda>e. hash L (fst e)) es')"
    by simp
  then show ?thesis
    unfolding distinct_keys_iff by (rule mset_eq_imp_distinct_iff)
qed

subsection \<open>Structural equality\<close>

text \<open>
  Structural equality as the specification words it: the same variant, with contents
  that are structurally equal in turn; lists and vectors element by element, maps and sets
  as multisets of entries and elements, whatever their order. Tokens and specials are
  compared as their own \<^verbatim>\<open>operator==\<close> does: tokens by value and type, specials by
  message and token.
\<close>

definition token_eq :: "token \<Rightarrow> token \<Rightarrow> bool" where
  "token_eq t t' \<longleftrightarrow> tok_value t = tok_value t' \<and> tok_type t = tok_type t'"

inductive struct_eq :: "form \<Rightarrow> form \<Rightarrow> bool" where
  Special: "message = message' \<Longrightarrow> rel_option token_eq token token' \<Longrightarrow>
     struct_eq (Special name message token) (Special name' message' token')"
| Token: "token_eq token token' \<Longrightarrow> struct_eq (Token token) (Token token')"
| List: "list_all2 struct_eq list list' \<Longrightarrow> struct_eq (List list) (List list')"
| Vector: "list_all2 struct_eq vector vector' \<Longrightarrow> struct_eq (Vector vector) (Vector vector')"
| Map: "list_all2 (rel_prod struct_eq struct_eq) m m1 \<Longrightarrow> mset m1 = mset m' \<Longrightarrow>
     struct_eq (Map m) (Map m')"
| Set: "list_all2 struct_eq s s1 \<Longrightarrow> mset s1 = mset s' \<Longrightarrow> struct_eq (Set s) (Set s')"

inductive_cases struct_eq_ListE: "struct_eq (List list) b"


text \<open>Structurally equal forms have the same hash, so \<^verbatim>\<open>equals\<close> holds for them.\<close>

lemma hash_list_map: "hash_list h list = hash_list (\<lambda>x. x) (map h list)"
  by (simp add: hash_list_def foldl_map)

lemma struct_eq_hash: "struct_eq a b \<Longrightarrow> hash L a = hash L b"
proof (induction rule: struct_eq.induct)
  case (Special message message' token token' name name')
  then show ?case by simp
next
  case (Token token token')
  then show ?case by (simp add: token_eq_def)
next
  case (List list list')
  then have "map (hash L) list = map (hash L) list'"
    by (induction rule: list_all2_induct) simp_all
  then show ?case
    by (simp add: hash_list_map [of "hash L"])
next
  case (Vector vector vector')
  then have "map (hash L) vector = map (hash L) vector'"
    by (induction rule: list_all2_induct) simp_all
  then show ?case
    by (simp add: hash_list_map [of "hash L"])
next
  case (Map m m1 m')
  let ?e = "\<lambda>item. hash_combine (hash_combine 0 (hash L (fst item))) (hash L (snd item))"
  from Map(1) have "map ?e m = map ?e m1"
    by (induction rule: list_all2_induct) auto
  then have "hash_map L (hash L) m = hash_map L (hash L) m1"
    by (simp add: hash_map_def)
  also have "\<dots> = hash_map L (hash L) m'"
    using Map(2) by (rule hash_map_perm)
  finally show ?case by simp
next
  case (Set s s1 s')
  from Set(1) have "map (hash L) s = map (hash L) s1"
    by (induction rule: list_all2_induct) simp_all
  then have "hash_set L (hash L) s = hash_set L (hash L) s1"
    by (simp add: hash_set_def)
  also have "\<dots> = hash_set L (hash L) s'"
    using Set(2) by (rule hash_set_perm)
  finally show ?case by simp
qed

lemma struct_eq_equals: "struct_eq a b \<Longrightarrow> equals L a b"
  by (simp add: equals_def struct_eq_hash)

subsection \<open>Inserting a pair whose key is already there\<close>

lemma pairs_append: "even (length xs) \<Longrightarrow> pairs (xs @ ys) = pairs xs @ pairs ys"
  by (induction xs rule: pairs.induct) simp_all

lemma equals_trans: "equals L a b \<Longrightarrow> equals L b c \<Longrightarrow> equals L a c"
  by (simp add: equals_def)

lemma map_insert_has_key: "\<exists>e \<in> set (map_insert L m (k, v)). equals L (fst e) k"
  by (auto simp: map_insert_def equals_def)

lemma map_insert_absorbed:
  "\<exists>e \<in> set m. equals L (fst e) k \<Longrightarrow> map_insert L m (k, v) = m"
  by (simp add: map_insert_def)

lemma map_insert_new:
  "\<not> (\<exists>e \<in> set m. equals L (fst e) k) \<Longrightarrow> (k, v) \<in> set (map_insert L m (k, v))"
  by (simp add: map_insert_def)

lemma foldl_map_insert_keeps: "e \<in> set m \<Longrightarrow> e \<in> set (foldl (map_insert L) m es)"
proof (induction es arbitrary: m)
  case Nil
  then show ?case by simp
next
  case (Cons x es)
  from Cons.prems have "e \<in> set (map_insert L m x)"
    by (simp add: map_insert_def)
  from Cons.IH [OF this] show ?case by simp
qed

lemma foldl_map_insert_subset: "set (foldl (map_insert L) m es) \<subseteq> set m \<union> set es"
proof (induction es arbitrary: m)
  case Nil
  then show ?case by simp
next
  case (Cons x es)
  have "set (map_insert L m x) \<subseteq> set m \<union> {x}"
    by (auto simp: map_insert_def)
  with Cons.IH [of "map_insert L m x"] show ?case by auto
qed

text \<open>
  When the body of a map literal holds a pair with the key \<open>k\<close> and, further to the right,
  a pair with a structurally equal key \<open>k'\<close>, \<^verbatim>\<open>list_to_map\<close> returns the same map as for
  the body without the later pair.
\<close>

lemma later_equal_key_dropped:
  assumes "even (length xs)" and "even (length ys)" and "struct_eq k k'"
  shows "list_to_map L (xs @ [k, v] @ ys @ [k', v'] @ zs) =
           list_to_map L (xs @ [k, v] @ ys @ zs)"
proof -
  let ?ins = "map_insert L"
  let ?m0 = "foldl ?ins [] (pairs xs)"
  let ?m1 = "foldl ?ins (?ins ?m0 (k, v)) (pairs ys)"
  have p1: "pairs (xs @ [k, v] @ ys @ [k', v'] @ zs) =
              pairs xs @ [(k, v)] @ pairs ys @ [(k', v')] @ pairs zs"
    using assms(1,2) by (simp add: pairs_append)
  have p2: "pairs (xs @ [k, v] @ ys @ zs) = pairs xs @ [(k, v)] @ pairs ys @ pairs zs"
    using assms(1,2) by (simp add: pairs_append)
  obtain e where e: "e \<in> set (?ins ?m0 (k, v))" "equals L (fst e) k"
    using map_insert_has_key [of L ?m0 k v] by blast
  from e(1) have "e \<in> set ?m1" by (rule foldl_map_insert_keeps)
  moreover from e(2) struct_eq_equals [OF assms(3), of L] have "equals L (fst e) k'"
    by (rule equals_trans)
  ultimately have absorbed: "?ins ?m1 (k', v') = ?m1"
    by (intro map_insert_absorbed) blast
  have f1: "foldl ?ins [] (pairs (xs @ [k, v] @ ys @ [k', v'] @ zs)) =
              foldl ?ins ?m1 (pairs zs)"
    unfolding p1 by (simp add: absorbed)
  have f2: "foldl ?ins [] (pairs (xs @ [k, v] @ ys @ zs)) = foldl ?ins ?m1 (pairs zs)"
    unfolding p2 by simp
  have "odd (length (xs @ [k, v] @ ys @ [k', v'] @ zs)) \<longleftrightarrow>
        odd (length (xs @ [k, v] @ ys @ zs))"
    by simp
  then show ?thesis
    unfolding list_to_map_def list_to_map_loop_eq f1 f2 by simp
qed

subsection \<open>Maps of one entry\<close>

lemma hash_combine_inject: "hash_combine seed h = hash_combine seed h' \<longleftrightarrow> h = h'"
proof
  assume "hash_combine seed h = hash_combine seed h'"
  then have "seed XOR (seed XOR (h + 0x9e3779b9 + push_bit 6 seed + drop_bit 2 seed)) =
             seed XOR (seed XOR (h' + 0x9e3779b9 + push_bit 6 seed + drop_bit 2 seed))"
    unfolding hash_combine_def by (rule arg_cong)
  then have "h + 0x9e3779b9 + push_bit 6 seed + drop_bit 2 seed =
             h' + 0x9e3779b9 + push_bit 6 seed + drop_bit 2 seed"
    by (simp only: bit.xor_left_self)
  then show "h = h'" by simp
qed simp

lemma hash_single_entry:
  "hash L (Map [(k, v)]) =
     hash_combine 0 (hash_size_t L (hash_combine (hash_combine 0 (hash L k)) (hash L v)))"
  by (simp add: hash_map_def hash_list_def)

text \<open>
  Two maps of one entry each, with keys of the same hash and values of different hashes,
  have different hashes in every library whose \<^verbatim>\<open>std::hash<std::size_t>\<close> is injective.
\<close>

lemma single_entry_maps_hash_differ:
  assumes "inj (hash_size_t L)" and "hash L k = hash L k'" and "hash L v \<noteq> hash L v'"
  shows "hash L (Map [(k, v)]) \<noteq> hash L (Map [(k', v')])"
proof -
  have "hash_combine (hash_combine 0 (hash L k)) (hash L v) \<noteq>
        hash_combine (hash_combine 0 (hash L k')) (hash L v')"
    using assms(2,3) by (simp add: hash_combine_inject)
  with assms(1) have "hash_size_t L (hash_combine (hash_combine 0 (hash L k)) (hash L v)) \<noteq>
        hash_size_t L (hash_combine (hash_combine 0 (hash L k')) (hash L v'))"
    by (simp add: inj_eq)
  then show ?thesis
    unfolding hash_single_entry by (simp only: hash_combine_inject not_False_eq_True)
qed

section \<open>Tokens as \<^verbatim>\<open>parse\<close> makes them\<close>

text \<open>
  \<^verbatim>\<open>parse\<close> gives a \<^verbatim>\<open>SPECIAL_CHAR\<close> token a character and a \<^verbatim>\<open>SPECIAL_CHARS\<close> or
  \<^verbatim>\<open>STRING\<close> token a string. On such tokens no \<^verbatim>\<open>std::get\<close> and no table lookup of the
  reader throws.
\<close>

definition wf_token :: "token \<Rightarrow> bool" where
  "wf_token t =
     (case tok_type t of
        SPECIAL_CHAR \<Rightarrow> (case tok_value t of V_CHAR c \<Rightarrow> True | _ \<Rightarrow> False)
      | SPECIAL_CHARS \<Rightarrow> (case tok_value t of V_STRING s \<Rightarrow> True | _ \<Rightarrow> False)
      | STRING \<Rightarrow> (case tok_value t of V_STRING s \<Rightarrow> True | _ \<Rightarrow> False)
      | _ \<Rightarrow> True)"

lemma wf_get_char:
  "wf_token t \<Longrightarrow> tok_type t = SPECIAL_CHAR \<Longrightarrow> \<exists>c. tok_value t = V_CHAR c"
  by (cases "tok_value t") (simp_all add: wf_token_def)

lemma wf_get_string:
  "wf_token t \<Longrightarrow> tok_type t = SPECIAL_CHARS \<or> tok_type t = STRING \<Longrightarrow>
   \<exists>s. tok_value t = V_STRING s"
  by (cases "tok_value t") (auto simp: wf_token_def)

lemma open_delimiter_type:
  "is_open_delimiter c \<Longrightarrow>
   \<exists>form_type d. map_at DELIMITER_TO_TYPE (Inl c) = Inr form_type \<and>
                 map_at TYPE_TO_DELIMITER form_type = Inr d"
  by (auto simp: is_open_delimiter_def map_at_def DELIMITER_TO_TYPE_def TYPE_TO_DELIMITER_def)

lemma wf_suffix: "suffix out it \<Longrightarrow> list_all wf_token it \<Longrightarrow> list_all wf_token out"
  using set_mono_suffix [of out it] by (auto simp: list_all_iff)

lemmas reader_induct =
  read_form_read_coll_read_coll_loop_expand_quoted_form_expand_meta_quoted_form_read_useful_form.induct

lemma reader_no_exception:
  "list_all wf_token it \<longrightarrow> it \<noteq> [] \<longrightarrow> (\<exists>r. read_form L it = Inr r)"
  "list_all wf_token it2 \<longrightarrow> (\<exists>d. map_at TYPE_TO_DELIMITER form_type = Inr d) \<longrightarrow>
     (\<exists>r. read_coll L it2 form_type = Inr r)"
  "list_all wf_token it3 \<longrightarrow>
     (\<exists>r. read_coll_loop L it3 form_type3 end_delimiter forms = Inr r)"
  "list_all wf_token it4 \<longrightarrow> (\<exists>r. expand_quoted_form L it4 token = Inr r)"
  "list_all wf_token it5 \<longrightarrow> (\<exists>r. expand_meta_quoted_form L it5 token5 = Inr r)"
  "list_all wf_token it6 \<longrightarrow> (\<exists>r. read_useful_form L it6 = Inr r)"
proof (induct rule: reader_induct)
  case (1 L it)
  show ?case
  proof (intro impI)
    assume wf: "list_all wf_token it" and ne: "it \<noteq> []"
    from ne obtain token "next" where it: "it = token # next"
      by (cases it) auto
    from wf it have wt: "wf_token token" and wn: "list_all wf_token next"
      by simp_all
    note rf = read_form.simps [of L it, unfolded it list.case]
    show "\<exists>r. read_form L it = Inr r"
    proof (cases "tok_type token")
      case SPECIAL_CHARS
      from wf_get_string [OF wt] SPECIAL_CHARS obtain s where s: "tok_value token = V_STRING s"
        by blast
      then have gs: "get_string (tok_value token) = Inr s"
        by (simp add: get_string_def)
      consider "s = ''#{''" | "s \<noteq> ''#{''" "s = ''~@''" | "s \<noteq> ''#{''" "s \<noteq> ''~@''"
        by blast
      then show ?thesis
      proof cases
        case 1
        have dt: "map_at DELIMITER_TO_TYPE (Inr s) = Inr SET"
          by (simp add: 1 map_at_def DELIMITER_TO_TYPE_def)
        have "\<exists>d. map_at TYPE_TO_DELIMITER SET = Inr d"
          by (simp add: map_at_def TYPE_TO_DELIMITER_def)
        with "1.hyps"(1) [OF it SPECIAL_CHARS gs 1 dt] wn
        obtain r where "read_coll L next SET = Inr r" by blast
        then show ?thesis
          unfolding it rf by (simp add: SPECIAL_CHARS gs 1 dt [unfolded 1])
      next
        case 2
        have sn: "map_at SYMBOL_TO_NAME (Inr s) = Inr ''splice-unquote''"
          by (simp add: 2 map_at_def SYMBOL_TO_NAME_def)
        from "1.hyps"(2) [OF it SPECIAL_CHARS gs 2 sn] wn
        obtain r where
          "expand_quoted_form L next (named_token ''splice-unquote'' token) = Inr r"
          by blast
        then show ?thesis
          unfolding it rf by (simp add: SPECIAL_CHARS gs 2 sn [unfolded 2(2)])
      next
        case 3
        then show ?thesis
          unfolding it rf by (simp add: SPECIAL_CHARS gs)
      qed
    next
      case SPECIAL_CHAR
      from wf_get_char [OF wt SPECIAL_CHAR] obtain c where c: "tok_value token = V_CHAR c"
        by blast
      then have gc: "get_char (tok_value token) = Inr c"
        by (simp add: get_char_def)
      consider (op) "is_open_delimiter c"
        | (cl) "\<not> is_open_delimiter c" "is_close_delimiter c"
        | (qu) "\<not> is_open_delimiter c" "\<not> is_close_delimiter c" "is_quote_char c"
        | (me) "\<not> is_open_delimiter c" "\<not> is_close_delimiter c" "\<not> is_quote_char c"
            "c = CHR ''^''"
        | (ot) "\<not> is_open_delimiter c" "\<not> is_close_delimiter c" "\<not> is_quote_char c"
            "c \<noteq> CHR ''^''"
        by blast
      then show ?thesis
      proof cases
        case op
        from open_delimiter_type [OF op] obtain form_type d where
          dt: "map_at DELIMITER_TO_TYPE (Inl c) = Inr form_type" and
          td: "map_at TYPE_TO_DELIMITER form_type = Inr d"
          by blast
        from "1.hyps"(3) [OF it SPECIAL_CHAR gc op dt] wn td
        obtain r where "read_coll L next form_type = Inr r" by blast
        then show ?thesis
          unfolding it rf by (simp add: SPECIAL_CHAR gc op dt)
      next
        case cl
        then show ?thesis
          unfolding it rf by (simp add: SPECIAL_CHAR gc)
      next
        case qu
        from quote_name [OF qu(3)] obtain name where
          sn: "map_at SYMBOL_TO_NAME (Inl c) = Inr name" by blast
        from "1.hyps"(4) [OF it SPECIAL_CHAR gc qu(1) qu(2) qu(3) sn] wn
        obtain r where "expand_quoted_form L next (named_token name token) = Inr r"
          by blast
        then show ?thesis
          unfolding it rf by (simp add: SPECIAL_CHAR gc qu sn)
      next
        case me
        have sn: "map_at SYMBOL_TO_NAME (Inl c) = Inr ''with-meta''"
          by (simp add: me(4) map_at_def SYMBOL_TO_NAME_def)
        from "1.hyps"(5) [OF it SPECIAL_CHAR gc me(1) me(2) me(3) me(4) sn] wn
        obtain r where
          "expand_meta_quoted_form L next (named_token ''with-meta'' token) = Inr r"
          by blast
        then show ?thesis
          unfolding it rf using me by (simp add: SPECIAL_CHAR gc sn [unfolded me(4)])
      next
        case ot
        then show ?thesis
          unfolding it rf by (simp add: SPECIAL_CHAR gc)
      qed
    next
      case STRING
      from wf_get_string [OF wt] STRING obtain s where s: "tok_value token = V_STRING s"
        by blast
      then show ?thesis
        unfolding it rf by (simp add: STRING get_string_def)
    qed (simp_all add: it rf)
  qed
next
  case (2 L it form_type)
  then show ?case
    by (auto simp: read_coll.simps)
next
  case (3 L it form_type end_delimiter forms)
  show ?case
  proof (intro impI)
    assume wf: "list_all wf_token it"
    note rl = read_coll_loop.simps [of L it form_type end_delimiter forms]
    show "\<exists>r. read_coll_loop L it form_type end_delimiter forms = Inr r"
    proof (cases "read_useful_token it")
      case None
      then show ?thesis by (simp add: rl)
    next
      case (Some p)
      obtain token it1 where p: "p = (token, it1)" by (cases p)
      note tok = Some [unfolded p]
      from read_useful_token_Some [OF tok] obtain "next" where it1: "it1 = token # next"
        by blast
      have wf1: "list_all wf_token it1"
        using wf_suffix [OF read_useful_token_suffix [OF tok] wf] .
      then have wt: "wf_token token" by (simp add: it1)
      show ?thesis
      proof (cases "coll_delimiter L token it1 form_type end_delimiter forms")
        case (Inl e)
        with wt show ?thesis
          by (auto simp: coll_delimiter_def get_char_def split: if_splits dest: wf_get_char)
      next
        case (Inr d)
        show ?thesis
        proof (cases d)
          case (Some ret)
          with Inr tok show ?thesis by (simp add: rl)
        next
          case None
          note d = Inr [unfolded None]
          from "3.hyps"(1) [OF tok refl d refl] wf1 it1
          obtain form it2 where rf: "read_form L it1 = Inr (form, it2)"
            by fastforce
          have "list_all wf_token it2"
            using wf_suffix [OF _ wf1] read_form_suffix [OF rf] by blast
          with "3.hyps"(2) [OF tok refl d refl rf refl]
          obtain r where
            "read_coll_loop L it2 form_type end_delimiter (forms @ [form]) = Inr r"
            by blast
          with tok d rf show ?thesis by (simp add: rl)
        qed
      qed
    qed
  qed
next
  case (4 L it token)
  then show ?case
    by (auto simp: expand_quoted_form.simps split: option.splits)
next
  case (5 L it token)
  show ?case
  proof (intro impI)
    assume wf: "list_all wf_token it"
    note em = expand_meta_quoted_form.simps [of L it token]
    from "5.hyps"(1) wf obtain o1 where r1: "read_useful_form L it = Inr o1" by blast
    show "\<exists>r. expand_meta_quoted_form L it token = Inr r"
    proof (cases o1)
      case None
      with r1 show ?thesis by (simp add: em)
    next
      case (Some p)
      obtain form it1 where p: "p = (form, it1)" by (cases p)
      note r1' = r1 [unfolded Some p]
      have "list_all wf_token it1"
        using wf_suffix [OF _ wf] read_useful_form_suffix [OF r1'] by blast
      with "5.hyps"(2) [OF r1' refl refl]
      obtain o2 where r2: "read_useful_form L it1 = Inr o2" by blast
      with r1' show ?thesis
        by (cases o2) (auto simp: em)
    qed
  qed
next
  case (6 L it)
  show ?case
  proof (intro impI)
    assume wf: "list_all wf_token it"
    note uf = read_useful_form.simps [of L it]
    show "\<exists>r. read_useful_form L it = Inr r"
    proof (cases "read_useful_token it")
      case None
      then show ?thesis by (simp add: uf)
    next
      case (Some p)
      obtain token it1 where p: "p = (token, it1)" by (cases p)
      note tok = Some [unfolded p]
      from read_useful_token_Some [OF tok] obtain "next" where it1: "it1 = token # next"
        by blast
      have "list_all wf_token it1"
        using wf_suffix [OF read_useful_token_suffix [OF tok] wf] .
      with "6.hyps" [OF tok refl] it1 obtain r where "read_form L it1 = Inr r"
        by blast
      with tok show ?thesis by (simp add: uf)
    qed
  qed
qed

lemma read_forms_loop_no_exception:
  "list_all wf_token it \<Longrightarrow> \<exists>r. read_forms_loop L it forms = Inr r"
proof (induction L it forms rule: read_forms_loop.induct)
  case (1 L it forms)
  from reader_no_exception(6) [of it L] "1.prems"
  obtain o1 where r: "read_useful_form L it = Inr o1" by blast
  show ?case
  proof (cases o1)
    case None
    with r show ?thesis by (simp add: read_forms_loop.simps [of L it])
  next
    case (Some p)
    obtain form it1 where p: "p = (form, it1)" by (cases p)
    note r' = r [unfolded Some p]
    have "list_all wf_token it1"
      using wf_suffix [OF _ "1.prems"] read_useful_form_suffix [OF r'] by blast
    from "1.IH" [OF r' refl refl this] r' show ?thesis
      by (simp add: read_forms_loop.simps [of L it])
  qed
qed

lemma parse_wf:
  "parse L v t = Inr x \<Longrightarrow> wf_token \<lparr>tok_value = x, tok_type = t, line = l, column = c\<rparr>"
  by (cases t) (auto simp: parse_def wf_token_def split: if_splits sum.splits)

lemma tokenize_from_wf:
  "tokenize_from L s pos lno = Inr ts \<Longrightarrow> list_all wf_token ts"
proof (induction L s pos lno arbitrary: ts rule: tokenize_from.induct)
  case (1 L s pos lno)
  note prem = "1.prems" [unfolded tokenize_from.simps [of L s pos lno]]
  show ?case
  proof (cases "s = []")
    case True
    with prem show ?thesis by simp
  next
    case False
    show ?thesis
    proof (cases "regex_match s")
      case None
      with False prem have "tokenize_from L (tl s) (pos + 1) lno = Inr ts" by simp
      from "1.IH"(1) [OF False None this] show ?thesis .
    next
      case (Some p)
      obtain n t where p: "p = (n, t)" by (cases p)
      note rm = Some [unfolded p]
      from False rm prem obtain v ts' where
        pv: "parse L (take n s) t = Inr v" and
        rest: "tokenize_from L (drop n s) (pos + n)
                 (lno + int (count_list (take n s) (CHR 0x0A))) = Inr ts'" and
        ts: "ts = \<lparr>tok_value = v, tok_type = t, line = lno, column = int pos + 1\<rparr> # ts'"
        by (auto split: sum.splits)
      from "1.IH"(2) [OF False rm refl pv rest] parse_wf [OF pv] show ?thesis
        by (simp add: ts)
    qed
  qed
qed

text \<open>
  So the reader itself never throws: when \<^verbatim>\<open>read\<close> ends with an exception, the exception
  comes from \<^verbatim>\<open>tokenize\<close>, that is from \<^verbatim>\<open>std::stol\<close> or \<^verbatim>\<open>std::stod\<close> in \<^verbatim>\<open>parse\<close>.
\<close>

lemma read_exception_from_tokenize: "read L input = Inl e \<Longrightarrow> tokenize L input = Inl e"
proof (cases "tokenize L input")
  case (Inl e')
  assume "read L input = Inl e"
  with Inl show ?thesis by (simp add: read_def)
next
  case (Inr tokens)
  assume r: "read L input = Inl e"
  from Inr have "list_all wf_token tokens"
    unfolding tokenize_def by (rule tokenize_from_wf)
  from read_forms_loop_no_exception [OF this, of L "[]"] r Inr show ?thesis
    by (auto simp: read_def read_forms_def)
qed

subsection \<open>Tokens without a close delimiter\<close>

text \<open>A token that is one of the three close delimiters.\<close>

definition is_close_token :: "token \<Rightarrow> bool" where
  "is_close_token t \<longleftrightarrow>
     tok_type t = SPECIAL_CHAR \<and>
     (case tok_value t of V_CHAR c \<Rightarrow> is_close_delimiter c | _ \<Rightarrow> False)"

lemma coll_delimiter_no_close:
  assumes "wf_token token" and "\<not> is_close_token token"
    and "is_close_delimiter end_delimiter"
  shows "coll_delimiter L token it form_type end_delimiter forms = Inr None"
proof (cases "tok_type token = SPECIAL_CHAR")
  case True
  from wf_get_char [OF assms(1) True] obtain c where c: "tok_value token = V_CHAR c"
    by blast
  with assms(2) True have "\<not> is_close_delimiter c"
    by (simp add: is_close_token_def)
  with assms(3) have "c \<noteq> end_delimiter" by blast
  with True c \<open>\<not> is_close_delimiter c\<close> show ?thesis
    by (simp add: coll_delimiter_def get_char_def)
next
  case False
  then show ?thesis by (simp add: coll_delimiter_def)
qed

lemma read_coll_loop_eof:
  assumes "is_close_delimiter end_delimiter"
  shows "list_all wf_token it \<Longrightarrow> \<not> list_ex is_close_token it \<Longrightarrow>
         read_coll_loop L it form_type end_delimiter forms =
           Inr (ReaderError (''EOF: no '' @ [end_delimiter] @ '' found'') None, [])"
proof (induction it arbitrary: forms rule: length_induct)
  case (1 it)
  note rl = read_coll_loop.simps [of L it form_type end_delimiter forms]
  show ?case
  proof (cases "read_useful_token it")
    case None
    then show ?thesis by (simp add: rl)
  next
    case (Some p)
    obtain token it1 where p: "p = (token, it1)" by (cases p)
    note tok = Some [unfolded p]
    from read_useful_token_Some [OF tok] obtain "next" where it1: "it1 = token # next"
      by blast
    note s1 = read_useful_token_suffix [OF tok]
    have wf1: "list_all wf_token it1"
      using wf_suffix [OF s1 "1.prems"(1)] .
    have nc1: "\<not> list_ex is_close_token it1"
      using set_mono_suffix [OF s1] "1.prems"(2) by (auto simp: list_ex_iff)
    from wf1 nc1 have "wf_token token" "\<not> is_close_token token"
      by (simp_all add: it1)
    then have d: "coll_delimiter L token it1 form_type end_delimiter forms = Inr None"
      using assms by (rule coll_delimiter_no_close)
    from reader_no_exception(1) [of it1 L] wf1 it1
    obtain form it2 where rf: "read_form L it1 = Inr (form, it2)"
      by fastforce
    note s2 = read_form_suffix [OF rf]
    have wf2: "list_all wf_token it2"
      using wf_suffix [OF _ wf1] s2 by blast
    have nc2: "\<not> list_ex is_close_token it2"
      using set_mono_suffix [of it2 it1] s2 nc1 by (auto simp: list_ex_iff)
    have "length it2 < length it"
      using s2 suffix_length_le [OF s1] by simp
    with "1.IH" wf2 nc2
    have "read_coll_loop L it2 form_type end_delimiter (forms @ [form]) =
            Inr (ReaderError (''EOF: no '' @ [end_delimiter] @ '' found'') None, [])"
      by blast
    with tok d rf show ?thesis by (simp add: rl)
  qed
qed

section \<open>The hash and the equality of zachlisp.hpp\<close>

text \<open>
  \<^verbatim>\<open>src/zachlisp.hpp\<close> holds the same tokenizer and reader with another hash and another
  \<^verbatim>\<open>equals\<close>. There \<^verbatim>\<open>equals\<close> is \<^verbatim>\<open>fw1.form == fw2.form\<close>, the equality of the
  \<^verbatim>\<open>std::variant\<close>: the same alternative and equal contents, where two
  \<^verbatim>\<open>std::shared_ptr\<close> are equal when they point to the same container. So a map or a set
  is modelled with the address of its container, which \<^verbatim>\<open>std::make_shared\<close> in
  \<^verbatim>\<open>listToMap\<close> and \<^verbatim>\<open>listToSet\<close> makes different for every container built. The hash
  combines the entries in the order of iteration, without sorting.
\<close>

datatype zform =
    ZReaderError string "token option"
  | ZToken token
  | ZList "zform list"
  | ZVector "zform list"
  | ZMap nat "(zform \<times> zform) list"
  | ZSet nat "zform list"

definition hashColl :: "('a \<Rightarrow> size_t) \<Rightarrow> 'a list \<Rightarrow> size_t" where
  "hashColl h list = foldl (\<lambda>ret item. hash_combine ret (h item)) 0 list"

definition hashMap :: "('a \<Rightarrow> size_t) \<Rightarrow> ('a \<times> 'a) list \<Rightarrow> size_t" where
  "hashMap h m =
     foldl (\<lambda>ret item. hash_combine (hash_combine ret (h (fst item))) (h (snd item))) 0 m"

lemma hashColl_cong [fundef_cong]:
  "xs = ys \<Longrightarrow> (\<And>x. x \<in> set ys \<Longrightarrow> f x = g x) \<Longrightarrow> hashColl f xs = hashColl g ys"
  unfolding hashColl_def by (rule foldl_cong) auto

lemma hashMap_cong [fundef_cong]:
  assumes "xs = ys"
    and "\<And>k v. (k, v) \<in> set ys \<Longrightarrow> f k = g k"
    and "\<And>k v. (k, v) \<in> set ys \<Longrightarrow> f v = g v"
  shows "hashMap f xs = hashMap g ys"
proof -
  have "f (fst item) = g (fst item) \<and> f (snd item) = g (snd item)" if "item \<in> set ys" for item
    using that assms(2,3) [of "fst item" "snd item"] by simp
  then show ?thesis
    unfolding hashMap_def assms(1) by (intro foldl_cong refl) simp
qed

fun zachlisp_hash :: "stdlib \<Rightarrow> zform \<Rightarrow> size_t" where
  "zachlisp_hash L (ZReaderError message token) = hash_string L message"
| "zachlisp_hash L (ZToken token) = hash_value L (tok_value token)"
| "zachlisp_hash L (ZList list) = hashColl (zachlisp_hash L) list"
| "zachlisp_hash L (ZVector vector) = hashColl (zachlisp_hash L) vector"
| "zachlisp_hash L (ZMap p m) = hashMap (zachlisp_hash L) m"
| "zachlisp_hash L (ZSet p s) = hashColl (zachlisp_hash L) s"

fun zachlisp_equals :: "zform \<Rightarrow> zform \<Rightarrow> bool" where
  "zachlisp_equals (ZReaderError message token) (ZReaderError message' token') \<longleftrightarrow>
     message = message' \<and> rel_option token_eq token token'"
| "zachlisp_equals (ZToken token) (ZToken token') \<longleftrightarrow> token_eq token token'"
| "zachlisp_equals (ZList list) (ZList list') \<longleftrightarrow> list_all2 zachlisp_equals list list'"
| "zachlisp_equals (ZVector vector) (ZVector vector') \<longleftrightarrow>
     list_all2 zachlisp_equals vector vector'"
| "zachlisp_equals (ZMap p m) (ZMap p' m') \<longleftrightarrow> p = p'"
| "zachlisp_equals (ZSet p s) (ZSet p' s') \<longleftrightarrow> p = p'"
| "zachlisp_equals _ _ \<longleftrightarrow> False"

text \<open>
  Two maps with the same entries in two containers are not equal there, and the hash of a
  map depends on the order in which the container iterates.
\<close>

lemma zachlisp_equals_by_address:
  "zachlisp_equals (ZMap p m) (ZMap p' m) \<longleftrightarrow> p = p'"
  "zachlisp_equals (ZSet p s) (ZSet p' s) \<longleftrightarrow> p = p'"
  by simp_all

lemma zachlisp_hash_order:
  "zachlisp_hash sample_stdlib
     (ZMap p [(ZToken \<lparr>tok_value = V_LONG 1, tok_type = NUMBER, line = 1, column = 2\<rparr>,
               ZToken \<lparr>tok_value = V_LONG 2, tok_type = NUMBER, line = 1, column = 4\<rparr>),
              (ZToken \<lparr>tok_value = V_LONG 3, tok_type = NUMBER, line = 1, column = 6\<rparr>,
               ZToken \<lparr>tok_value = V_LONG 4, tok_type = NUMBER, line = 1, column = 8\<rparr>)]) \<noteq>
   zachlisp_hash sample_stdlib
     (ZMap p [(ZToken \<lparr>tok_value = V_LONG 3, tok_type = NUMBER, line = 1, column = 6\<rparr>,
               ZToken \<lparr>tok_value = V_LONG 4, tok_type = NUMBER, line = 1, column = 8\<rparr>),
              (ZToken \<lparr>tok_value = V_LONG 1, tok_type = NUMBER, line = 1, column = 2\<rparr>,
               ZToken \<lparr>tok_value = V_LONG 2, tok_type = NUMBER, line = 1, column = 4\<rparr>)])"
  by (simp add: hashMap_def hash_combine_def sample_stdlib_def sample_hash_value_def)

section \<open>The claims\<close>

text \<open>
  C1 requires \<^verbatim>\<open>equals\<close> to be structural equality and not equality of hashes. In
  \<^verbatim>\<open>read.hpp\<close> \<^verbatim>\<open>equals\<close> is equality of hashes. The empty list and the empty vector
  both hash to 0, so \<^verbatim>\<open>equals\<close> holds for them although they are different variants and
  not structurally equal, and the set literal \<^verbatim>\<open>#{() []}\<close> is read as a set of one element.
\<close>

theorem equals_is_hash_equality:
  "equals L (List []) (Vector []) \<and>
   \<not> struct_eq (List []) (Vector []) \<and>
   hash L (List []) = 0 \<and> hash L (Vector []) = 0 \<and>
   read L ''#{() []}'' = Inr [Set [List []]]"
proof -
  have "read L ''#{() []}'' = Inr [Set [List []]]"
    by code_simp
  moreover have "\<not> struct_eq (List []) (Vector [])"
    by (auto elim: struct_eq_ListE)
  ultimately show ?thesis
    by (simp add: equals_def hash_list_def)
qed

text \<open>
  C2 requires two maps built from the same entries in different orders to have equal
  hashes and to be equal. The hash of a map form in \<^verbatim>\<open>read.hpp\<close> does sort the entry
  hashes (\<open>hash_map_perm\<close>, \<open>hash_set_perm\<close>), but building the map does not keep the
  entries: \<^verbatim>\<open>list_to_map\<close> inserts with the key equality \<^verbatim>\<open>equals\<close>, which is equality
  of hashes (C1), so an entry whose key has the hash of an earlier key is dropped. The
  empty vector and the empty list both hash to 0. From the two entries with the keys
  \<^verbatim>\<open>[]\<close> and \<^verbatim>\<open>()\<close> the texts \<^verbatim>\<open>{[] 1 () 2}\<close> and \<^verbatim>\<open>{() 2 [] 1}\<close> build, in every
  library, two maps of one entry, each holding the entry that came first; with the
  library \<open>sample_stdlib\<close> their hashes differ and \<^verbatim>\<open>equals\<close> does not hold for them
  (\<open>single_entry_maps_hash_differ\<close> gives the same for every library that tells the two
  values apart).
\<close>

theorem built_maps_depend_on_order:
  "mset (pairs [Vector [], a, List [], b]) = mset (pairs [List [], b, Vector [], a]) \<and>
   list_to_map L [Vector [], a, List [], b] = Map [(Vector [], a)] \<and>
   list_to_map L [List [], b, Vector [], a] = Map [(List [], b)] \<and>
   read L ''{[] 1 () 2}'' =
     Inr [Map [(Vector [],
                Token \<lparr>tok_value = V_LONG 1, tok_type = NUMBER, line = 1, column = 5\<rparr>)]] \<and>
   read L ''{() 2 [] 1}'' =
     Inr [Map [(List [],
                Token \<lparr>tok_value = V_LONG 2, tok_type = NUMBER, line = 1, column = 5\<rparr>)]] \<and>
   hash sample_stdlib
     (Map [(Vector [],
            Token \<lparr>tok_value = V_LONG 1, tok_type = NUMBER, line = 1, column = 5\<rparr>)]) \<noteq>
   hash sample_stdlib
     (Map [(List [],
            Token \<lparr>tok_value = V_LONG 2, tok_type = NUMBER, line = 1, column = 5\<rparr>)]) \<and>
   \<not> equals sample_stdlib
     (Map [(Vector [],
            Token \<lparr>tok_value = V_LONG 1, tok_type = NUMBER, line = 1, column = 5\<rparr>)])
     (Map [(List [],
            Token \<lparr>tok_value = V_LONG 2, tok_type = NUMBER, line = 1, column = 5\<rparr>)])"
proof -
  let ?one = "Token \<lparr>tok_value = V_LONG 1, tok_type = NUMBER, line = 1, column = 5\<rparr>"
  let ?two = "Token \<lparr>tok_value = V_LONG 2, tok_type = NUMBER, line = 1, column = 5\<rparr>"
  have p: "mset (pairs [Vector [], a, List [], b]) = mset (pairs [List [], b, Vector [], a])"
    by simp
  have m1: "list_to_map L [Vector [], a, List [], b] = Map [(Vector [], a)]"
    by (simp add: list_to_map_def map_insert_def equals_def hash_list_def)
  have m2: "list_to_map L [List [], b, Vector [], a] = Map [(List [], b)]"
    by (simp add: list_to_map_def map_insert_def equals_def hash_list_def)
  have r1: "read L ''{[] 1 () 2}'' = Inr [Map [(Vector [], ?one)]]"
    by code_simp
  have r2: "read L ''{() 2 [] 1}'' = Inr [Map [(List [], ?two)]]"
    by code_simp
  have i: "inj (hash_size_t sample_stdlib)"
    by (simp add: sample_stdlib_def inj_def)
  have k: "hash sample_stdlib (Vector []) = hash sample_stdlib (List [])"
    by (simp add: hash_list_def)
  have v: "hash sample_stdlib ?one \<noteq> hash sample_stdlib ?two"
    by (simp add: sample_stdlib_def sample_hash_value_def)
  from single_entry_maps_hash_differ [OF i k v]
  have h: "hash sample_stdlib (Map [(Vector [], ?one)]) \<noteq> hash sample_stdlib (Map [(List [], ?two)])" .
  from p m1 m2 r1 r2 h show ?thesis
    unfolding equals_def by blast
qed

text \<open>
  C3 has \<^verbatim>\<open>read\<close> return forms for every input and never throw. \<^verbatim>\<open>tokenize\<close> passes
  every number without a point to \<^verbatim>\<open>std::stol\<close>, which throws \<^verbatim>\<open>std::out_of_range\<close>
  for a value above \<^verbatim>\<open>LONG_MAX\<close>; nothing catches it, so \<^verbatim>\<open>read\<close> ends with that
  exception on the input \<^verbatim>\<open>99999999999999999999\<close>, also inside a collection.
\<close>

theorem read_throws_out_of_range:
  "read L ''99999999999999999999'' = Inl out_of_range \<and>
   read L ''(+ 1 99999999999999999999)'' = Inl out_of_range \<and>
   regex_match ''99999999999999999999'' = Some (20, NUMBER) \<and>
   parse L ''99999999999999999999'' NUMBER = Inl out_of_range"
proof -
  have "read L ''99999999999999999999'' = Inl out_of_range"
    by code_simp
  moreover have "read L ''(+ 1 99999999999999999999)'' = Inl out_of_range"
    by code_simp
  moreover have "regex_match ''99999999999999999999'' = Some (20, NUMBER)"
    by code_simp
  moreover have "parse L ''99999999999999999999'' NUMBER = Inl out_of_range"
    by code_simp
  ultimately show ?thesis by blast
qed

text \<open>
  C4. Whenever the loop of \<^verbatim>\<open>read_coll\<close>, reading a collection of any type with any forms
  already accumulated, finds as the next useful token a close delimiter \<^verbatim>\<open>c\<close> other than
  the end delimiter of the collection, it returns the reader error
  \<^verbatim>\<open>Unmatched delimiter: c\<close> carrying that token, with the cursor at the end of the
  tokens; the same holds for \<^verbatim>\<open>read_coll\<close> entered at such a token. From the end of the
  tokens nothing more is read: there is no useful token and the top-level loop returns
  the forms it has.
\<close>

theorem read_coll_unmatched_delimiter:
  assumes "read_useful_token it = Some (token, it1)"
    and "tok_type token = SPECIAL_CHAR"
    and "tok_value token = V_CHAR c"
    and "is_close_delimiter c"
    and "map_at TYPE_TO_DELIMITER form_type = Inr end_delimiter"
    and "c \<noteq> end_delimiter"
  shows "read_coll_loop L it form_type end_delimiter forms =
           Inr (ReaderError (''Unmatched delimiter: '' @ [c]) (Some token), []) \<and>
         read_coll L it form_type =
           Inr (ReaderError (''Unmatched delimiter: '' @ [c]) (Some token), []) \<and>
         read_useful_token [] = None \<and>
         read_forms_loop L [] top_forms = Inr top_forms"
proof -
  have d: "coll_delimiter L token it1 form_type end_delimiter fs =
             Inr (Some (ReaderError (''Unmatched delimiter: '' @ [c]) (Some token), []))" for fs
    using assms by (simp add: coll_delimiter_def get_char_def)
  have "read_coll_loop L it form_type end_delimiter fs =
          Inr (ReaderError (''Unmatched delimiter: '' @ [c]) (Some token), [])" for fs
    using assms(1) d [of fs] by (simp add: read_coll_loop.simps)
  then show ?thesis
    using assms(5) by (simp add: read_coll.simps)
qed

theorem read_coll_unmatched_delimiter_witness:
  "\<forall>L.
     (let rb = \<lparr>tok_value = V_CHAR (CHR '']''), tok_type = SPECIAL_CHAR, line = 1, column = 4\<rparr>;
          ws = \<lparr>tok_value = V_STRING '' '', tok_type = WHITESPACE, line = 1, column = 3\<rparr>;
          one = \<lparr>tok_value = V_LONG 1, tok_type = NUMBER, line = 1, column = 2\<rparr>
      in read_useful_token [ws, rb] = Some (rb, [rb]) \<and>
         is_close_delimiter (CHR '']'') \<and>
         map_at TYPE_TO_DELIMITER MAP = Inr (CHR ''}'') \<and>
         read_coll_loop L [ws, rb] MAP (CHR ''}'') [Token one] =
           Inr (ReaderError ''Unmatched delimiter: ]'' (Some rb), []) \<and>
         read_coll L [ws, rb] MAP = Inr (ReaderError ''Unmatched delimiter: ]'' (Some rb), []))"
proof
  fix L
  let ?rb = "\<lparr>tok_value = V_CHAR (CHR '']''), tok_type = SPECIAL_CHAR, line = 1, column = 4\<rparr>"
  let ?ws = "\<lparr>tok_value = V_STRING '' '', tok_type = WHITESPACE, line = 1, column = 3\<rparr>"
  let ?one = "\<lparr>tok_value = V_LONG 1, tok_type = NUMBER, line = 1, column = 2\<rparr>"
  have 1: "read_useful_token [?ws, ?rb] = Some (?rb, [?rb])" by simp
  have 2: "is_close_delimiter (CHR '']'')" by (simp add: is_close_delimiter_def)
  have 3: "map_at TYPE_TO_DELIMITER MAP = Inr (CHR ''}'')"
    by (simp add: map_at_def TYPE_TO_DELIMITER_def)
  show "let rb = ?rb; ws = ?ws; one = ?one
      in read_useful_token [ws, rb] = Some (rb, [rb]) \<and>
         is_close_delimiter (CHR '']'') \<and>
         map_at TYPE_TO_DELIMITER MAP = Inr (CHR ''}'') \<and>
         read_coll_loop L [ws, rb] MAP (CHR ''}'') [Token one] =
           Inr (ReaderError ''Unmatched delimiter: ]'' (Some rb), []) \<and>
         read_coll L [ws, rb] MAP = Inr (ReaderError ''Unmatched delimiter: ]'' (Some rb), [])"
    using read_coll_unmatched_delimiter
      [where L = L and forms = "[Token ?one]" and c = "CHR '']''", OF 1 _ _ 2 3] 1 2 3
    by (simp add: Let_def)
qed

text \<open>
  C5. When the loop of \<^verbatim>\<open>read_coll\<close>, reading a collection of any type with any forms
  already accumulated, finds no useful token left, it returns the reader error
  \<^verbatim>\<open>EOF: no c found\<close> without a token, where \<^verbatim>\<open>c\<close> is the end delimiter of the collection,
  and the cursor is at the end of the tokens. More: when the tokens after the open
  delimiter (tokens as \<^verbatim>\<open>parse\<close> makes them) hold no close delimiter at all, \<^verbatim>\<open>read_coll\<close>
  returns this error whatever else they hold. Reading \<^verbatim>\<open>(1 2\<close> gives the error
  \<^verbatim>\<open>EOF: no ) found\<close>.
\<close>

theorem read_coll_eof:
  assumes "map_at TYPE_TO_DELIMITER form_type = Inr end_delimiter"
  shows "(read_useful_token it = None \<longrightarrow>
            read_coll_loop L it form_type end_delimiter forms =
              Inr (ReaderError (''EOF: no '' @ [end_delimiter] @ '' found'') None, []) \<and>
            read_coll L it form_type =
              Inr (ReaderError (''EOF: no '' @ [end_delimiter] @ '' found'') None, [])) \<and>
         (list_all wf_token it \<and> \<not> list_ex is_close_token it \<longrightarrow>
            read_coll_loop L it form_type end_delimiter forms =
              Inr (ReaderError (''EOF: no '' @ [end_delimiter] @ '' found'') None, []) \<and>
            read_coll L it form_type =
              Inr (ReaderError (''EOF: no '' @ [end_delimiter] @ '' found'') None, [])) \<and>
         read L ''(1 2'' = Inr [ReaderError ''EOF: no ) found'' None]"
proof -
  have a: "read_coll_loop L it form_type end_delimiter fs =
             Inr (ReaderError (''EOF: no '' @ [end_delimiter] @ '' found'') None, [])"
    if "read_useful_token it = None" for fs
    using that by (simp add: read_coll_loop.simps)
  have b: "read_coll_loop L it form_type end_delimiter fs =
             Inr (ReaderError (''EOF: no '' @ [end_delimiter] @ '' found'') None, [])"
    if "list_all wf_token it" and "\<not> list_ex is_close_token it" for fs
    using end_delimiter_close [OF assms] that by (rule read_coll_loop_eof)
  have c: "read_coll L it form_type = read_coll_loop L it form_type end_delimiter []"
    using assms by (simp add: read_coll.simps)
  have d: "read L ''(1 2'' = Inr [ReaderError ''EOF: no ) found'' None]"
    by code_simp
  show ?thesis
    using a [of forms] a [of "[]"] b [of forms] b [of "[]"] d unfolding c by blast
qed

text \<open>
  The tokens of \<^verbatim>\<open>1 [2 "\<close> after an open parenthesis: the vector and the string inside
  end on errors of their own, the list on the error for its own delimiter.
\<close>

theorem read_coll_eof_witness:
  "(let one = \<lparr>tok_value = V_LONG 1, tok_type = NUMBER, line = 1, column = 2\<rparr>;
        ws = \<lparr>tok_value = V_STRING '' '', tok_type = WHITESPACE, line = 1, column = 3\<rparr>;
        lb = \<lparr>tok_value = V_CHAR (CHR ''[''), tok_type = SPECIAL_CHAR, line = 1, column = 4\<rparr>;
        two = \<lparr>tok_value = V_LONG 2, tok_type = NUMBER, line = 1, column = 5\<rparr>;
        str = \<lparr>tok_value = V_STRING [CHR 0x22], tok_type = STRING, line = 1, column = 7\<rparr>
    in map_at TYPE_TO_DELIMITER LIST = Inr (CHR '')'') \<and>
       read_useful_token [ws] = None \<and>
       read_coll sample_stdlib [ws] LIST = Inr (ReaderError ''EOF: no ) found'' None, []) \<and>
       list_all wf_token [one, ws, lb, two, ws, str] \<and>
       \<not> list_ex is_close_token [one, ws, lb, two, ws, str] \<and>
       read_coll sample_stdlib [one, ws, lb, two, ws, str] LIST =
         Inr (ReaderError ''EOF: no ) found'' None, []))"
proof -
  let ?one = "\<lparr>tok_value = V_LONG 1, tok_type = NUMBER, line = 1, column = 2\<rparr>"
  let ?ws = "\<lparr>tok_value = V_STRING '' '', tok_type = WHITESPACE, line = 1, column = 3\<rparr>"
  let ?lb = "\<lparr>tok_value = V_CHAR (CHR ''[''), tok_type = SPECIAL_CHAR, line = 1, column = 4\<rparr>"
  let ?two = "\<lparr>tok_value = V_LONG 2, tok_type = NUMBER, line = 1, column = 5\<rparr>"
  let ?str = "\<lparr>tok_value = V_STRING [CHR 0x22], tok_type = STRING, line = 1, column = 7\<rparr>"
  have 1: "map_at TYPE_TO_DELIMITER LIST = Inr (CHR '')'')"
    by (simp add: map_at_def TYPE_TO_DELIMITER_def)
  have 2: "read_useful_token [?ws] = None" by simp
  have 3: "list_all wf_token [?one, ?ws, ?lb, ?two, ?ws, ?str]"
    by (simp add: wf_token_def)
  have 4: "\<not> list_ex is_close_token [?one, ?ws, ?lb, ?two, ?ws, ?str]"
    by (simp add: is_close_token_def is_close_delimiter_def)
  from read_coll_eof [OF 1, of "[?ws]" sample_stdlib] 2
  have 5: "read_coll sample_stdlib [?ws] LIST = Inr (ReaderError ''EOF: no ) found'' None, [])"
    by simp
  from read_coll_eof [OF 1, of "[?one, ?ws, ?lb, ?two, ?ws, ?str]" sample_stdlib] 3 4
  have 6: "read_coll sample_stdlib [?one, ?ws, ?lb, ?two, ?ws, ?str] LIST =
             Inr (ReaderError ''EOF: no ) found'' None, [])"
    by simp
  show ?thesis
    unfolding Let_def using 1 2 3 4 5 6 by blast
qed

text \<open>
  C6. \<^verbatim>\<open>list_to_map\<close>, which \<^verbatim>\<open>read_coll\<close> calls on the sub-forms accumulated between
  \<^verbatim>\<open>{\<close> and \<^verbatim>\<open>}\<close>, returns the reader error \<^verbatim>\<open>Map must contain even number of forms\<close>
  without a token when their number is odd: the error is the whole result, not a map.
  When the number is even it returns a map, built by inserting the pairs of sub-forms from
  left to right; when no two keys are equal these pairs are exactly its entries. Reading
  \<^verbatim>\<open>{1 2}\<close> gives the map with the one entry from 1 to 2, reading \<^verbatim>\<open>{1}\<close> the error.
\<close>

theorem list_to_map_parity:
  "(odd (length forms) \<longrightarrow>
      list_to_map L forms = ReaderError ''Map must contain even number of forms'' None) \<and>
   (even (length forms) \<longrightarrow>
      list_to_map L forms = Map (foldl (map_insert L) [] (pairs forms))) \<and>
   (even (length forms) \<and> distinct_keys L (pairs forms) \<longrightarrow>
      list_to_map L forms = Map (pairs forms)) \<and>
   (read_useful_token it = Some (token, it1) \<and> tok_type token = SPECIAL_CHAR \<and>
    tok_value token = V_CHAR (CHR ''}'') \<longrightarrow>
      read_coll_loop L it MAP (CHR ''}'') forms = Inr (list_to_map L forms, tl it1)) \<and>
   read L ''{1 2}'' =
     Inr [Map [(Token \<lparr>tok_value = V_LONG 1, tok_type = NUMBER, line = 1, column = 2\<rparr>,
                Token \<lparr>tok_value = V_LONG 2, tok_type = NUMBER, line = 1, column = 4\<rparr>)]] \<and>
   read L ''{1}'' = Inr [ReaderError ''Map must contain even number of forms'' None]"
proof -
  have a: "read L ''{1 2}'' =
     Inr [Map [(Token \<lparr>tok_value = V_LONG 1, tok_type = NUMBER, line = 1, column = 2\<rparr>,
                Token \<lparr>tok_value = V_LONG 2, tok_type = NUMBER, line = 1, column = 4\<rparr>)]]"
    by code_simp
  have b: "read L ''{1}'' = Inr [ReaderError ''Map must contain even number of forms'' None]"
    by code_simp
  have c: "list_to_map L forms = Map (pairs forms)"
    if "even (length forms)" and "distinct_keys L (pairs forms)"
    using that foldl_map_insert_distinct [of L "[]" "pairs forms"]
    by (simp add: list_to_map_def list_to_map_loop_eq)
  have d: "read_coll_loop L it MAP (CHR ''}'') forms = Inr (list_to_map L forms, tl it1)"
    if "read_useful_token it = Some (token, it1)" and "tok_type token = SPECIAL_CHAR"
      and "tok_value token = V_CHAR (CHR ''}'')"
    using that
    by (simp add: read_coll_loop.simps coll_delimiter_def get_char_def coll_form_def)
  have e: "odd (length forms) \<longrightarrow>
      list_to_map L forms = ReaderError ''Map must contain even number of forms'' None"
    by (simp add: list_to_map_def list_to_map_loop_eq)
  have f: "even (length forms) \<longrightarrow>
      list_to_map L forms = Map (foldl (map_insert L) [] (pairs forms))"
    by (simp add: list_to_map_def list_to_map_loop_eq)
  show ?thesis
    using a b c d e f by blast
qed

theorem list_to_map_parity_witness:
  "(let k = Token \<lparr>tok_value = V_STRING ''a'', tok_type = SYMBOL, line = 1, column = 2\<rparr>;
        v = Token \<lparr>tok_value = V_LONG 1, tok_type = NUMBER, line = 1, column = 4\<rparr>;
        k2 = Token \<lparr>tok_value = V_STRING ''b'', tok_type = SYMBOL, line = 1, column = 6\<rparr>
    in odd (length [k, v, k2]) \<and>
       list_to_map sample_stdlib [k, v, k2] =
         ReaderError ''Map must contain even number of forms'' None \<and>
       even (length [k, v, k2, v]) \<and> distinct_keys sample_stdlib (pairs [k, v, k2, v]) \<and>
       list_to_map sample_stdlib [k, v, k2, v] = Map [(k, v), (k2, v)] \<and>
       read_useful_token
         [\<lparr>tok_value = V_CHAR (CHR ''}''), tok_type = SPECIAL_CHAR, line = 1, column = 9\<rparr>] =
         Some (\<lparr>tok_value = V_CHAR (CHR ''}''), tok_type = SPECIAL_CHAR, line = 1, column = 9\<rparr>,
               [\<lparr>tok_value = V_CHAR (CHR ''}''), tok_type = SPECIAL_CHAR, line = 1, column = 9\<rparr>]) \<and>
       read_coll_loop sample_stdlib
         [\<lparr>tok_value = V_CHAR (CHR ''}''), tok_type = SPECIAL_CHAR, line = 1, column = 9\<rparr>]
         MAP (CHR ''}'') [k, v, k2] =
         Inr (ReaderError ''Map must contain even number of forms'' None, []))"
proof -
  let ?k = "Token \<lparr>tok_value = V_STRING ''a'', tok_type = SYMBOL, line = 1, column = 2\<rparr>"
  let ?v = "Token \<lparr>tok_value = V_LONG 1, tok_type = NUMBER, line = 1, column = 4\<rparr>"
  let ?k2 = "Token \<lparr>tok_value = V_STRING ''b'', tok_type = SYMBOL, line = 1, column = 6\<rparr>"
  have d: "distinct_keys sample_stdlib (pairs [?k, ?v, ?k2, ?v])"
    by (simp add: equals_def sample_stdlib_def sample_hash_value_def sample_hash_string_def)
  have o: "odd (length [?k, ?v, ?k2])" and e: "even (length [?k, ?v, ?k2, ?v])"
    by simp_all
  from list_to_map_parity [of "[?k, ?v, ?k2]" sample_stdlib] o
  have 1: "list_to_map sample_stdlib [?k, ?v, ?k2] =
             ReaderError ''Map must contain even number of forms'' None"
    by blast
  from list_to_map_parity [of "[?k, ?v, ?k2, ?v]" sample_stdlib] e d
  have "list_to_map sample_stdlib [?k, ?v, ?k2, ?v] = Map (pairs [?k, ?v, ?k2, ?v])"
    by blast
  then have 2: "list_to_map sample_stdlib [?k, ?v, ?k2, ?v] = Map [(?k, ?v), (?k2, ?v)]"
    by simp
  let ?rb = "\<lparr>tok_value = V_CHAR (CHR ''}''), tok_type = SPECIAL_CHAR, line = 1, column = 9\<rparr>"
  have 3: "read_useful_token [?rb] = Some (?rb, [?rb])" by simp
  from list_to_map_parity [of "[?k, ?v, ?k2]" sample_stdlib "[?rb]" ?rb "[?rb]"] 3
  have "read_coll_loop sample_stdlib [?rb] MAP (CHR ''}'') [?k, ?v, ?k2] =
          Inr (list_to_map sample_stdlib [?k, ?v, ?k2], tl [?rb])"
    by simp
  with 1 have 4: "read_coll_loop sample_stdlib [?rb] MAP (CHR ''}'') [?k, ?v, ?k2] =
          Inr (ReaderError ''Map must contain even number of forms'' None, [])"
    by simp
  show ?thesis
    unfolding Let_def using o e d 1 2 3 4 by blast
qed

text \<open>
  C7. At a \<^verbatim>\<open>^\<close> token \<^verbatim>\<open>read_form\<close> reads a form \<open>M\<close> from the tokens after it, then
  a form \<open>X\<close> from the tokens after \<open>M\<close>, and returns the list of the symbol
  \<^verbatim>\<open>with-meta\<close>, \<open>X\<close> and \<open>M\<close>, in this order, with the cursor after \<open>X\<close>. When no form
  follows the \<^verbatim>\<open>^\<close> the result is the reader error
  \<^verbatim>\<open>EOF: Nothing found after ^\<close>, when none follows \<open>M\<close> it is
  \<^verbatim>\<open>EOF: Nothing found after metadata\<close>; both leave the cursor at the end of the tokens.
  The symbol is a token of type \<^verbatim>\<open>SYMBOL\<close> with the text \<^verbatim>\<open>with-meta\<close> at the line and
  column of the \<^verbatim>\<open>^\<close>. Reading \<^verbatim>\<open>^m x\<close> gives \<^verbatim>\<open>(with-meta x m)\<close>.
\<close>

theorem meta_expansion:
  assumes "tok_type token = SPECIAL_CHAR"
    and "tok_value token = V_CHAR (CHR ''^'')"
  shows "(read_useful_form L it = Inr (Some (M, it1)) \<and>
          read_useful_form L it1 = Inr (Some (X, it2)) \<longrightarrow>
            read_form L (token # it) =
              Inr (List [Token (named_token ''with-meta'' token), X, M], it2)) \<and>
         (read_useful_form L it = Inr None \<longrightarrow>
            read_form L (token # it) =
              Inr (ReaderError ''EOF: Nothing found after ^''
                     (Some (named_token ''with-meta'' token)), [])) \<and>
         (read_useful_form L it = Inr (Some (M, it1)) \<and> read_useful_form L it1 = Inr None \<longrightarrow>
            read_form L (token # it) =
              Inr (ReaderError ''EOF: Nothing found after metadata''
                     (Some (named_token ''with-meta'' token)), [])) \<and>
         named_token ''with-meta'' token =
           \<lparr>tok_value = V_STRING ''with-meta'', tok_type = SYMBOL,
            line = line token, column = column token\<rparr> \<and>
         suffix ''Nothing found after ^'' ''EOF: Nothing found after ^'' \<and>
         suffix ''Nothing found after metadata'' ''EOF: Nothing found after metadata'' \<and>
         read L ''^m x'' =
           Inr [List
                  [Token \<lparr>tok_value = V_STRING ''with-meta'', tok_type = SYMBOL,
                          line = 1, column = 1\<rparr>,
                   Token \<lparr>tok_value = V_STRING ''x'', tok_type = SYMBOL, line = 1, column = 4\<rparr>,
                   Token \<lparr>tok_value = V_STRING ''m'', tok_type = SYMBOL, line = 1, column = 2\<rparr>]]"
proof -
  note rf = read_form_meta [OF assms, of L it]
  have a: "read_form L (token # it) =
             Inr (List [Token (named_token ''with-meta'' token), X, M], it2)"
    if "read_useful_form L it = Inr (Some (M, it1))"
      and "read_useful_form L it1 = Inr (Some (X, it2))"
    using that by (simp add: rf expand_meta_quoted_form.simps)
  have b: "read_form L (token # it) =
             Inr (ReaderError ''EOF: Nothing found after ^''
                    (Some (named_token ''with-meta'' token)), [])"
    if "read_useful_form L it = Inr None"
    using that by (simp add: rf expand_meta_quoted_form.simps)
  have c: "read_form L (token # it) =
             Inr (ReaderError ''EOF: Nothing found after metadata''
                    (Some (named_token ''with-meta'' token)), [])"
    if "read_useful_form L it = Inr (Some (M, it1))" and "read_useful_form L it1 = Inr None"
    using that by (simp add: rf expand_meta_quoted_form.simps)
  have d: "suffix ''Nothing found after ^'' ''EOF: Nothing found after ^''"
    by (rule suffixI [of _ "''EOF: ''"]) simp
  have e: "suffix ''Nothing found after metadata'' ''EOF: Nothing found after metadata''"
    by (rule suffixI [of _ "''EOF: ''"]) simp
  have f: "read L ''^m x'' =
           Inr [List
                  [Token \<lparr>tok_value = V_STRING ''with-meta'', tok_type = SYMBOL,
                          line = 1, column = 1\<rparr>,
                   Token \<lparr>tok_value = V_STRING ''x'', tok_type = SYMBOL, line = 1, column = 4\<rparr>,
                   Token \<lparr>tok_value = V_STRING ''m'', tok_type = SYMBOL, line = 1, column = 2\<rparr>]]"
    by code_simp
  show ?thesis
    using a b c d e f by (simp add: named_token_def)
qed

text \<open>
  The three cases at concrete tokens: \<^verbatim>\<open>^ m x\<close> as tokens, \<^verbatim>\<open>^\<close> alone, and \<^verbatim>\<open>^ m\<close>.
\<close>

theorem meta_expansion_witness:
  "(let caret = \<lparr>tok_value = V_CHAR (CHR ''^''), tok_type = SPECIAL_CHAR, line = 1, column = 1\<rparr>;
        m = \<lparr>tok_value = V_STRING ''m'', tok_type = SYMBOL, line = 1, column = 2\<rparr>;
        ws = \<lparr>tok_value = V_STRING '' '', tok_type = WHITESPACE, line = 1, column = 3\<rparr>;
        x = \<lparr>tok_value = V_STRING ''x'', tok_type = SYMBOL, line = 1, column = 4\<rparr>;
        sym = \<lparr>tok_value = V_STRING ''with-meta'', tok_type = SYMBOL, line = 1, column = 1\<rparr>
    in read_useful_form sample_stdlib [m, ws, x] = Inr (Some (Token m, [ws, x])) \<and>
       read_useful_form sample_stdlib [ws, x] = Inr (Some (Token x, [])) \<and>
       read_form sample_stdlib [caret, m, ws, x] = Inr (List [Token sym, Token x, Token m], []) \<and>
       read_useful_form sample_stdlib [] = Inr None \<and>
       read_form sample_stdlib [caret] =
         Inr (ReaderError ''EOF: Nothing found after ^'' (Some sym), []) \<and>
       read_useful_form sample_stdlib [m] = Inr (Some (Token m, [])) \<and>
       read_form sample_stdlib [caret, m] =
         Inr (ReaderError ''EOF: Nothing found after metadata'' (Some sym), []))"
proof -
  let ?caret = "\<lparr>tok_value = V_CHAR (CHR ''^''), tok_type = SPECIAL_CHAR, line = 1, column = 1\<rparr>"
  let ?m = "\<lparr>tok_value = V_STRING ''m'', tok_type = SYMBOL, line = 1, column = 2\<rparr>"
  let ?ws = "\<lparr>tok_value = V_STRING '' '', tok_type = WHITESPACE, line = 1, column = 3\<rparr>"
  let ?x = "\<lparr>tok_value = V_STRING ''x'', tok_type = SYMBOL, line = 1, column = 4\<rparr>"
  have 1: "read_useful_form sample_stdlib [?m, ?ws, ?x] = Inr (Some (Token ?m, [?ws, ?x]))"
    by (simp add: read_useful_form.simps read_form.simps)
  have 2: "read_useful_form sample_stdlib [?ws, ?x] = Inr (Some (Token ?x, []))"
    by (simp add: read_useful_form.simps read_form.simps)
  have 3: "read_useful_form sample_stdlib [?m] = Inr (Some (Token ?m, []))"
    by (simp add: read_useful_form.simps read_form.simps)
  have 4: "tok_type ?caret = SPECIAL_CHAR" "tok_value ?caret = V_CHAR (CHR ''^'')"
    by simp_all
  show ?thesis
    using meta_expansion [OF 4, of sample_stdlib "[?m, ?ws, ?x]" "Token ?m" "[?ws, ?x]" "Token ?x" "[]"]
      meta_expansion [OF 4, of sample_stdlib "[]"]
      meta_expansion [OF 4, of sample_stdlib "[?m]" "Token ?m" "[]"]
      1 2 3
    by (simp add: Let_def)
qed

text \<open>
  C8, as the code has it. At a quote-sugar token (\<^verbatim>\<open>'\<close>, the backquote, \<^verbatim>\<open>~\<close>, \<^verbatim>\<open>@\<close> or
  \<^verbatim>\<open>~@\<close>) \<^verbatim>\<open>read_form\<close> reads the form \<open>X\<close> that follows and returns the list of the
  symbol \<open>name\<close> and \<open>X\<close>, where \<open>name\<close> is \<^verbatim>\<open>quote\<close>, \<^verbatim>\<open>quasiquote\<close>, \<^verbatim>\<open>unquote\<close>,
  \<^verbatim>\<open>deref\<close> or \<^verbatim>\<open>splice-unquote\<close>. When no form follows it returns the reader error
  \<^verbatim>\<open>EOF: Nothing found after quote\<close> with the cursor at the end of the tokens; the token
  the error carries is the symbol token of the expansion (type \<^verbatim>\<open>SYMBOL\<close>, the name as
  its text, the line and column of the sugar token), not the sugar token itself. Reading
  \<^verbatim>\<open>'x\<close> gives the list of the symbols \<^verbatim>\<open>quote\<close> and \<^verbatim>\<open>x\<close>, reading \<^verbatim>\<open>~@x\<close> the list of
  the symbols \<^verbatim>\<open>splice-unquote\<close> and \<^verbatim>\<open>x\<close>.
\<close>

theorem quote_expansion:
  assumes "sugar_name token = Some name"
  shows "(read_useful_form L it = Inr (Some (X, it1)) \<longrightarrow>
            read_form L (token # it) = Inr (List [Token (named_token name token), X], it1)) \<and>
         (read_useful_form L it = Inr None \<longrightarrow>
            read_form L (token # it) =
              Inr (ReaderError ''EOF: Nothing found after quote''
                     (Some (named_token name token)), [])) \<and>
         named_token name token =
           \<lparr>tok_value = V_STRING name, tok_type = SYMBOL,
            line = line token, column = column token\<rparr> \<and>
         read L [CHR 0x27, CHR ''x''] =
           Inr [List
                  [Token \<lparr>tok_value = V_STRING ''quote'', tok_type = SYMBOL,
                          line = 1, column = 1\<rparr>,
                   Token \<lparr>tok_value = V_STRING ''x'', tok_type = SYMBOL, line = 1, column = 2\<rparr>]] \<and>
         read L ''~@x'' =
           Inr [List
                  [Token \<lparr>tok_value = V_STRING ''splice-unquote'', tok_type = SYMBOL,
                          line = 1, column = 1\<rparr>,
                   Token \<lparr>tok_value = V_STRING ''x'', tok_type = SYMBOL, line = 1, column = 3\<rparr>]]"
proof -
  note rf = read_form_sugar [OF assms, of L it]
  have a: "read_form L (token # it) = Inr (List [Token (named_token name token), X], it1)"
    if "read_useful_form L it = Inr (Some (X, it1))"
    using that by (simp add: rf expand_quoted_form.simps)
  have b: "read_form L (token # it) =
             Inr (ReaderError ''EOF: Nothing found after quote''
                    (Some (named_token name token)), [])"
    if "read_useful_form L it = Inr None"
    using that by (simp add: rf expand_quoted_form.simps)
  have c: "read L [CHR 0x27, CHR ''x''] =
           Inr [List
                  [Token \<lparr>tok_value = V_STRING ''quote'', tok_type = SYMBOL,
                          line = 1, column = 1\<rparr>,
                   Token \<lparr>tok_value = V_STRING ''x'', tok_type = SYMBOL, line = 1, column = 2\<rparr>]]"
    by code_simp
  have d: "read L ''~@x'' =
           Inr [List
                  [Token \<lparr>tok_value = V_STRING ''splice-unquote'', tok_type = SYMBOL,
                          line = 1, column = 1\<rparr>,
                   Token \<lparr>tok_value = V_STRING ''x'', tok_type = SYMBOL, line = 1, column = 3\<rparr>]]"
    by code_simp
  show ?thesis
    using a b c d by (simp add: named_token_def)
qed

theorem quote_expansion_witness:
  "(let tilde = \<lparr>tok_value = V_CHAR (CHR ''~''), tok_type = SPECIAL_CHAR, line = 2, column = 5\<rparr>;
        x = \<lparr>tok_value = V_STRING ''x'', tok_type = SYMBOL, line = 2, column = 6\<rparr>;
        sym = \<lparr>tok_value = V_STRING ''unquote'', tok_type = SYMBOL, line = 2, column = 5\<rparr>
    in sugar_name tilde = Some ''unquote'' \<and>
       read_useful_form sample_stdlib [x] = Inr (Some (Token x, [])) \<and>
       read_form sample_stdlib [tilde, x] = Inr (List [Token sym, Token x], []) \<and>
       read_useful_form sample_stdlib [] = Inr None \<and>
       read_form sample_stdlib [tilde] =
         Inr (ReaderError ''EOF: Nothing found after quote'' (Some sym), []))"
proof -
  let ?tilde = "\<lparr>tok_value = V_CHAR (CHR ''~''), tok_type = SPECIAL_CHAR, line = 2, column = 5\<rparr>"
  let ?x = "\<lparr>tok_value = V_STRING ''x'', tok_type = SYMBOL, line = 2, column = 6\<rparr>"
  have 1: "sugar_name ?tilde = Some ''unquote''"
    by (simp add: sugar_name_def)
  have 2: "read_useful_form sample_stdlib [?x] = Inr (Some (Token ?x, []))"
    by (simp add: read_useful_form.simps read_form.simps)
  show ?thesis
    using quote_expansion [OF 1, of sample_stdlib "[?x]" "Token ?x" "[]"]
      quote_expansion [OF 1, of sample_stdlib "[]"] 1 2
    by (simp add: Let_def)
qed

text \<open>
  C8 as it is stated has the error carry the sugar token. For the input \<^verbatim>\<open>'\<close> the error
  of the code carries the symbol token \<^verbatim>\<open>quote\<close> instead.
\<close>

theorem quote_error_token_counterexample:
  "read sample_stdlib [CHR 0x27] \<noteq>
     Inr [ReaderError ''EOF: Nothing found after quote''
            (Some \<lparr>tok_value = V_CHAR (CHR 0x27), tok_type = SPECIAL_CHAR,
                    line = 1, column = 1\<rparr>)] \<and>
   read sample_stdlib [CHR 0x27] =
     Inr [ReaderError ''EOF: Nothing found after quote''
            (Some \<lparr>tok_value = V_STRING ''quote'', tok_type = SYMBOL, line = 1, column = 1\<rparr>)]"
proof -
  have "read sample_stdlib [CHR 0x27] =
     Inr [ReaderError ''EOF: Nothing found after quote''
            (Some \<lparr>tok_value = V_STRING ''quote'', tok_type = SYMBOL, line = 1, column = 1\<rparr>)]"
    by code_simp
  then show ?thesis by (simp add: ReaderError_def)
qed

text \<open>
  C9 has the map keep the first of two pairs with structurally equal keys and drop the
  later one. \<^verbatim>\<open>list_to_map\<close> does drop the later one (\<open>later_equal_key_dropped\<close>), but
  it keeps the first only when no key to its left has the same hash, since the key
  equality of the map is \<^verbatim>\<open>equals\<close>, equality of hashes (C1). The empty vector and the
  empty list both hash to 0, so in \<^verbatim>\<open>{[] 0 () 1 () 2}\<close> neither of the two pairs with the
  key \<^verbatim>\<open>()\<close> is kept: in every library the map that is read has the one entry of \<^verbatim>\<open>[]\<close>.
\<close>

theorem first_equal_key_not_kept:
  "struct_eq (List []) (List []) \<and> \<not> struct_eq (Vector []) (List []) \<and>
   list_to_map L [Vector [], z, List [], v, List [], v'] = Map [(Vector [], z)] \<and>
   (List [], v) \<notin> set [(Vector [], z)] \<and>
   read L ''{[] 0 () 1 () 2}'' =
     Inr [Map [(Vector [],
                Token \<lparr>tok_value = V_LONG 0, tok_type = NUMBER, line = 1, column = 5\<rparr>)]]"
proof -
  have s: "struct_eq (List []) (List [])"
    by (rule struct_eq.List) simp
  have n: "\<not> struct_eq (Vector []) (List [])"
    by (auto elim: struct_eq.cases)
  have m: "list_to_map L [Vector [], z, List [], v, List [], v'] = Map [(Vector [], z)]"
    by (simp add: list_to_map_def map_insert_def equals_def hash_list_def)
  have r: "read L ''{[] 0 () 1 () 2}'' =
     Inr [Map [(Vector [],
                Token \<lparr>tok_value = V_LONG 0, tok_type = NUMBER, line = 1, column = 5\<rparr>)]]"
    by code_simp
  from s n m r show ?thesis by simp
qed

text \<open>
  C10. Whenever the top-level loop of \<^verbatim>\<open>read_forms\<close>, with any forms already read,
  finds a close delimiter as the next useful token, \<^verbatim>\<open>read_form\<close> yields the reader
  error \<^verbatim>\<open>Unmatched delimiter: c\<close> with the cursor at the end of the tokens, so the loop
  returns the forms read so far followed by that error and nothing else: the error is the
  last form of the result, whatever tokens follow the delimiter. So reading \<^verbatim>\<open>1 ) 2\<close>
  gives the scalar 1 and the error.
\<close>

theorem top_level_unmatched_delimiter:
  assumes "read_useful_token it = Some (token, it1)"
    and "tok_type token = SPECIAL_CHAR"
    and "tok_value token = V_CHAR c"
    and "is_close_delimiter c"
  shows "read_useful_form L it =
           Inr (Some (ReaderError (''Unmatched delimiter: '' @ [c]) (Some token), [])) \<and>
         read_forms_loop L it forms =
           Inr (forms @ [ReaderError (''Unmatched delimiter: '' @ [c]) (Some token)]) \<and>
         read_forms L it = Inr [ReaderError (''Unmatched delimiter: '' @ [c]) (Some token)] \<and>
         read L ''1 ) 2'' =
           Inr [Token \<lparr>tok_value = V_LONG 1, tok_type = NUMBER, line = 1, column = 1\<rparr>,
                ReaderError ''Unmatched delimiter: )''
                  (Some \<lparr>tok_value = V_CHAR (CHR '')''), tok_type = SPECIAL_CHAR,
                          line = 1, column = 3\<rparr>)]"
proof -
  from read_useful_token_Some [OF assms(1)] obtain "next" where it1: "it1 = token # next"
    by blast
  have uf: "read_useful_form L it =
              Inr (Some (ReaderError (''Unmatched delimiter: '' @ [c]) (Some token), []))"
    using assms(1) read_form_close [OF assms(2,3,4), of L "next"]
    by (simp add: read_useful_form_Some it1)
  have loop: "read_forms_loop L it fs =
                Inr (fs @ [ReaderError (''Unmatched delimiter: '' @ [c]) (Some token)])" for fs
    by (subst read_forms_loop.simps) (simp add: uf)
  have ex: "read L ''1 ) 2'' =
           Inr [Token \<lparr>tok_value = V_LONG 1, tok_type = NUMBER, line = 1, column = 1\<rparr>,
                ReaderError ''Unmatched delimiter: )''
                  (Some \<lparr>tok_value = V_CHAR (CHR '')''), tok_type = SPECIAL_CHAR,
                          line = 1, column = 3\<rparr>)]"
    by code_simp
  show ?thesis
    using uf loop [of forms] loop [of "[]"] ex by (simp add: read_forms_def)
qed

theorem top_level_unmatched_delimiter_witness:
  "read_useful_token
     [\<lparr>tok_value = V_STRING '' '', tok_type = WHITESPACE, line = 1, column = 1\<rparr>,
      \<lparr>tok_value = V_CHAR (CHR '']''), tok_type = SPECIAL_CHAR, line = 1, column = 2\<rparr>,
      \<lparr>tok_value = V_LONG 7, tok_type = NUMBER, line = 1, column = 3\<rparr>] =
     Some (\<lparr>tok_value = V_CHAR (CHR '']''), tok_type = SPECIAL_CHAR, line = 1, column = 2\<rparr>,
           [\<lparr>tok_value = V_CHAR (CHR '']''), tok_type = SPECIAL_CHAR, line = 1, column = 2\<rparr>,
            \<lparr>tok_value = V_LONG 7, tok_type = NUMBER, line = 1, column = 3\<rparr>]) \<and>
   is_close_delimiter (CHR '']'') \<and>
   read_forms sample_stdlib
     [\<lparr>tok_value = V_STRING '' '', tok_type = WHITESPACE, line = 1, column = 1\<rparr>,
      \<lparr>tok_value = V_CHAR (CHR '']''), tok_type = SPECIAL_CHAR, line = 1, column = 2\<rparr>,
      \<lparr>tok_value = V_LONG 7, tok_type = NUMBER, line = 1, column = 3\<rparr>] =
     Inr [ReaderError ''Unmatched delimiter: ]''
            (Some \<lparr>tok_value = V_CHAR (CHR '']''), tok_type = SPECIAL_CHAR,
                    line = 1, column = 2\<rparr>)]"
proof -
  let ?rb = "\<lparr>tok_value = V_CHAR (CHR '']''), tok_type = SPECIAL_CHAR, line = 1, column = 2\<rparr>"
  let ?ws = "\<lparr>tok_value = V_STRING '' '', tok_type = WHITESPACE, line = 1, column = 1\<rparr>"
  let ?n = "\<lparr>tok_value = V_LONG 7, tok_type = NUMBER, line = 1, column = 3\<rparr>"
  have 1: "read_useful_token [?ws, ?rb, ?n] = Some (?rb, [?rb, ?n])" by simp
  have 2: "is_close_delimiter (CHR '']'')" by (simp add: is_close_delimiter_def)
  show ?thesis
    using top_level_unmatched_delimiter [where L = sample_stdlib and c = "CHR '']''", OF 1 _ _ 2]
      1 2
    by simp
qed

end
